theory Spec2Isabelle
  imports Main "HOL-Library.Word"
begin

unbundle bit_operations_syntax

section \<open>The diagnostic subsystem of src/debug.cc\<close>

text \<open>
  A shallow embedding of \<^verbatim>\<open>src/src/debug.cc\<close>. C strings are values of type
  \<open>string\<close> holding the bytes before the terminating NUL; a \<open>char\<close> array is a
  \<open>char list\<close> of the array's size; \<open>int\<close> values that are only compared or printed
  are \<open>int\<close>; the 64-bit flag words (\<open>unsigned long\<close>, \<open>uint64_t\<close>) are \<open>64 word\<close>.
  An access outside an array is undefined behaviour in C: the model returns it as a
  \<open>fault\<close> value naming the offending index.
\<close>

subsection \<open>Declarations the file takes from its headers\<close>

datatype ncclDebugLogLevel =
  NCCL_LOG_NONE | NCCL_LOG_VERSION | NCCL_LOG_WARN | NCCL_LOG_INFO | NCCL_LOG_ABORT | NCCL_LOG_TRACE

text \<open>
  Modelled from the spec: the enumeration \<open>ncclDebugLogLevel\<close> is declared in a header
  that is not under src/. The spec gives its declared sequence
  NONE < VERSION < WARN < INFO < ABORT < TRACE; \<open>level_val\<close> numbers the enumerators
  in that order from 0, as a C enumeration without initialisers does.
\<close>

fun level_val :: "ncclDebugLogLevel \<Rightarrow> int" where
  "level_val NCCL_LOG_NONE = 0"
| "level_val NCCL_LOG_VERSION = 1"
| "level_val NCCL_LOG_WARN = 2"
| "level_val NCCL_LOG_INFO = 3"
| "level_val NCCL_LOG_ABORT = 4"
| "level_val NCCL_LOG_TRACE = 5"

text \<open>
  Modelled from the spec: the subsystem flags are declared in a header that is not
  under src/. The spec names them in the order INIT, COLL, P2P, SHM, NET, GRAPH,
  TUNING, ENV, ALLOC, CALL, PROXY, NVLS, BOOTSTRAP, REG "plus an ALL union"; each named
  subsystem is one bit, in that order, and ALL is the full set (every bit), which the
  spec's \<open>^INIT\<close> example (full set without INIT = ALL without INIT) requires.
\<close>

definition NCCL_INIT :: "64 word" where "NCCL_INIT = 1"
definition NCCL_COLL :: "64 word" where "NCCL_COLL = 2"
definition NCCL_P2P :: "64 word" where "NCCL_P2P = 4"
definition NCCL_SHM :: "64 word" where "NCCL_SHM = 8"
definition NCCL_NET :: "64 word" where "NCCL_NET = 16"
definition NCCL_GRAPH :: "64 word" where "NCCL_GRAPH = 32"
definition NCCL_TUNING :: "64 word" where "NCCL_TUNING = 64"
definition NCCL_ENV :: "64 word" where "NCCL_ENV = 128"
definition NCCL_ALLOC :: "64 word" where "NCCL_ALLOC = 256"
definition NCCL_CALL :: "64 word" where "NCCL_CALL = 512"
definition NCCL_PROXY :: "64 word" where "NCCL_PROXY = 1024"
definition NCCL_NVLS :: "64 word" where "NCCL_NVLS = 2048"
definition NCCL_BOOTSTRAP :: "64 word" where "NCCL_BOOTSTRAP = 4096"
definition NCCL_REG :: "64 word" where "NCCL_REG = 8192"
definition NCCL_ALL :: "64 word" where "NCCL_ALL = NOT 0"

text \<open>
  \<open>PATH_MAX\<close> comes from the platform's \<open>limits.h\<close>; on Linux, the platform of
  \<open>syscall(SYS_gettid)\<close>, it is 4096.
\<close>

definition PATH_MAX :: nat where "PATH_MAX = 4096"

subsection \<open>Library routines: decimal output, padding, case-insensitive comparison\<close>

text \<open>The digits printed by \<open>%d\<close> and by \<open>operator<<\<close> for an \<open>int\<close>.\<close>

definition digit_char :: "nat \<Rightarrow> char" where
  "digit_char d = ''0123456789'' ! d"

function dec_nat :: "nat \<Rightarrow> string" where
  "dec_nat n = (if n < 10 then [digit_char n] else dec_nat (n div 10) @ [digit_char (n mod 10)])"
  by pat_completeness auto
termination
  by (relation "measure (\<lambda>n. n)") auto

declare dec_nat.simps [simp del]

definition dec_int :: "int \<Rightarrow> string" where
  "dec_int i = (if i < 0 then CHR ''-'' # dec_nat (nat (- i)) else dec_nat (nat i))"

text \<open>
  \<open>os << std::setfill('0') << std::setw(w) << i\<close>: the default adjustment is to the
  right, so the fill characters come first, and a text already \<open>w\<close> wide or wider is
  not cut.
\<close>

definition setw_fill0 :: "nat \<Rightarrow> string \<Rightarrow> string" where
  "setw_fill0 w s = replicate (w - length s) CHR ''0'' @ s"

subsection \<open>numDigits and ncclDebugSetDistributorParams\<close>

text \<open>
  \<^verbatim>\<open>
  static int numDigits(int n) {
    int ndigits = 0;
    while (n > 0) { n /= 10; ndigits++; }
    return ndigits;
  }
  \<close>
  For \<open>n > 0\<close> the truncating division of C is \<open>div\<close>.
\<close>

function numDigits_loop :: "int \<Rightarrow> int \<Rightarrow> int" where
  "numDigits_loop n ndigits =
     (if n > 0 then numDigits_loop (n div 10) (ndigits + 1) else ndigits)"
  by pat_completeness auto
termination
  by (relation "measure (\<lambda>(n, ndigits). nat n)") auto

declare numDigits_loop.simps [simp del]

definition numDigits :: "int \<Rightarrow> int" where
  "numDigits n = numDigits_loop n 0"

text \<open>
  The process-wide variables of the file. \<open>ncclLastError\<close> (a \<open>char[1024]\<close>) and
  \<open>hostname\<close> (a \<open>char[1024]\<close>) hold the text before their terminating NUL.
  \<open>ncclDebugFile\<close> is the stream in use; \<open>fopens\<close> and \<open>fwrites\<close> record, in order,
  the paths opened with mode \<open>"w"\<close> and the byte blocks handed to \<open>fwrite\<close>.
\<close>

datatype sink = Stdout | DebugFile string

record debug_state =
  ncclDebugLevel :: int
  rank :: string
  nranks :: string
  pid :: int
  hostname :: string
  ncclLastError :: string
  ncclDebugMask :: "64 word"
  ncclDebugFile :: sink
  ncclEpoch :: int
  fopens :: "string list"
  fwrites :: "(sink \<times> string) list"

text \<open>The initialisers of the file's globals (lines 20 to 30).\<close>

definition initial_state :: debug_state where
  "initial_state =
     \<lparr>ncclDebugLevel = -1, rank = ''?'', nranks = ''?'', pid = -1, hostname = [],
      ncclLastError = [], ncclDebugMask = NCCL_INIT OR NCCL_ENV, ncclDebugFile = Stdout,
      ncclEpoch = 0, fopens = [], fwrites = []\<rparr>"

text \<open>
  \<^verbatim>\<open>
  void ncclDebugSetDistributorParams(int _rank, int _nranks) {
    std::size_t ndigits = numDigits(_nranks);
    rank_oss << std::setfill('0') << std::setw(ndigits) << _rank;     rank = rank_oss.str();
    nranks_oss << std::setfill('0') << std::setw(ndigits) << _nranks; nranks = nranks_oss.str();
  }
  \<close>
\<close>

definition ncclDebugSetDistributorParams :: "int \<Rightarrow> int \<Rightarrow> debug_state \<Rightarrow> debug_state" where
  "ncclDebugSetDistributorParams r n s =
     (let ndigits = nat (numDigits n)
      in s\<lparr>rank := setw_fill0 ndigits (dec_int r), nranks := setw_fill0 ndigits (dec_int n)\<rparr>)"

subsection \<open>C strings and arrays\<close>

datatype fault = ReadOutOfBounds nat | WriteOutOfBounds nat

definition NUL :: char where
  "NUL = CHR 0x00"

text \<open>
  \<open>tolower\<close> in the C locale, and \<open>strcasecmp(a, b) == 0\<close>: the two strings are equal
  once every letter is lowered.
\<close>

definition c_tolower :: "char \<Rightarrow> char" where
  "c_tolower c =
     (case map_of (zip ''ABCDEFGHIJKLMNOPQRSTUVWXYZ'' ''abcdefghijklmnopqrstuvwxyz'') c of
        Some l \<Rightarrow> l
      | None \<Rightarrow> c)"

definition strcasecmp_eq :: "string \<Rightarrow> string \<Rightarrow> bool" where
  "strcasecmp_eq a b = (map c_tolower a = map c_tolower b)"

text \<open>
  Reading \<open>s[i]\<close> of a C string: the bytes of \<open>s\<close>, then the terminator at index
  \<open>length s\<close>; nothing beyond belongs to the string.
\<close>

definition cstr_at :: "string \<Rightarrow> nat \<Rightarrow> fault + char" where
  "cstr_at s i =
     (if i < length s then Inr (s ! i)
      else if i = length s then Inr NUL
      else Inl (ReadOutOfBounds i))"

text \<open>
  Storing the bytes \<open>bs\<close> at offset \<open>off\<close> of the array \<open>buf\<close>. The fault names the
  first index outside the array that the store touches.
\<close>

definition store_bytes :: "char list \<Rightarrow> nat \<Rightarrow> char list \<Rightarrow> fault + char list" where
  "store_bytes buf off bs =
     (if off + length bs \<le> length buf
      then Inr (take off buf @ bs @ drop (off + length bs) buf)
      else Inl (WriteOutOfBounds (max off (length buf))))"

text \<open>
  \<open>snprintf(buf + dst, n, ...)\<close> where \<open>txt\<close> is the complete formatted text: it
  stores at most \<open>n - 1\<close> bytes of the text and a terminator (nothing when
  \<open>n\<close> is 0) and returns the length of the complete text. Formatting errors
  (a negative return value) and texts of \<open>2^31\<close> bytes or more are not modelled.
\<close>

definition c_snprintf :: "char list \<Rightarrow> nat \<Rightarrow> nat \<Rightarrow> string \<Rightarrow> fault + (char list \<times> nat)" where
  "c_snprintf buf dst n txt =
     (if n = 0 then Inr (buf, length txt)
      else case store_bytes buf dst (take (n - 1) txt @ [NUL]) of
             Inl e \<Rightarrow> Inl e
           | Inr buf' \<Rightarrow> Inr (buf', length txt))"

text \<open>Subtraction of \<open>size_t\<close> values (64 bits): it wraps around.\<close>

definition size_t_sub :: "nat \<Rightarrow> nat \<Rightarrow> nat" where
  "size_t_sub a b = (a + 2 ^ 64 - b mod 2 ^ 64) mod 2 ^ 64"

definition size_t_add :: "nat \<Rightarrow> nat \<Rightarrow> nat" where
  "size_t_add a b = (a + b) mod 2 ^ 64"

text \<open>
  \<open>strtok(s, ",")\<close> and its continuation \<open>strtok(NULL, ",")\<close>: skip the delimiters at
  the front; at the end of the string there is no token; otherwise the token runs to
  the next delimiter (or the end), and the scan continues after that delimiter. The
  result is the token and the rest of the string still to be scanned.
\<close>

definition strtok_comma :: "string \<Rightarrow> (string \<times> string) option" where
  "strtok_comma s =
     (let s1 = dropWhile (\<lambda>c. c = CHR '','') s
      in if s1 = [] then None
         else Some (takeWhile (\<lambda>c. c \<noteq> CHR '','') s1,
                    drop 1 (dropWhile (\<lambda>c. c \<noteq> CHR '','') s1)))"

subsection \<open>ncclDebugInit: the level name\<close>

text \<open>
  Lines 64 to 78. \<open>tempNcclDebugLevel\<close> starts at \<open>-1\<close>; the chain of \<open>else if\<close> has
  no final \<open>else\<close>.
\<close>

definition parse_level :: "string option \<Rightarrow> int" where
  "parse_level nccl_debug =
     (case nccl_debug of
        None \<Rightarrow> level_val NCCL_LOG_NONE
      | Some d \<Rightarrow>
          if strcasecmp_eq d ''VERSION'' then level_val NCCL_LOG_VERSION
          else if strcasecmp_eq d ''WARN'' then level_val NCCL_LOG_WARN
          else if strcasecmp_eq d ''INFO'' then level_val NCCL_LOG_INFO
          else if strcasecmp_eq d ''ABORT'' then level_val NCCL_LOG_ABORT
          else if strcasecmp_eq d ''TRACE'' then level_val NCCL_LOG_TRACE
          else -1)"

subsection \<open>ncclDebugInit: the subsystem list\<close>

text \<open>Lines 92 to 123: the mask of one token, 0 when no name matches.\<close>

definition subsys_mask :: "string \<Rightarrow> 64 word" where
  "subsys_mask subsys =
     (if strcasecmp_eq subsys ''INIT'' then NCCL_INIT
      else if strcasecmp_eq subsys ''COLL'' then NCCL_COLL
      else if strcasecmp_eq subsys ''P2P'' then NCCL_P2P
      else if strcasecmp_eq subsys ''SHM'' then NCCL_SHM
      else if strcasecmp_eq subsys ''NET'' then NCCL_NET
      else if strcasecmp_eq subsys ''GRAPH'' then NCCL_GRAPH
      else if strcasecmp_eq subsys ''TUNING'' then NCCL_TUNING
      else if strcasecmp_eq subsys ''ENV'' then NCCL_ENV
      else if strcasecmp_eq subsys ''ALLOC'' then NCCL_ALLOC
      else if strcasecmp_eq subsys ''CALL'' then NCCL_CALL
      else if strcasecmp_eq subsys ''PROXY'' then NCCL_PROXY
      else if strcasecmp_eq subsys ''NVLS'' then NCCL_NVLS
      else if strcasecmp_eq subsys ''BOOTSTRAP'' then NCCL_BOOTSTRAP
      else if strcasecmp_eq subsys ''REG'' then NCCL_REG
      else if strcasecmp_eq subsys ''ALL'' then NCCL_ALL
      else 0)"

text \<open>
  Lines 90 to 128: the \<open>while (subsys != NULL)\<close> loop over the tokens; \<open>rest\<close> is what
  \<open>strtok\<close> has still to scan and \<open>dbgmask\<close> is \<open>ncclDebugMask\<close>.
\<close>

function subsys_loop :: "bool \<Rightarrow> string \<Rightarrow> 64 word \<Rightarrow> 64 word" where
  "subsys_loop invert rest dbgmask =
     (case strtok_comma rest of
        None \<Rightarrow> dbgmask
      | Some (subsys, rest') \<Rightarrow>
          (let mask = subsys_mask subsys
           in subsys_loop invert rest'
                (if mask \<noteq> 0
                 then (if invert then dbgmask AND NOT mask else dbgmask OR mask)
                 else dbgmask)))"
  by pat_completeness auto
termination
proof (relation "measure (\<lambda>(invert, rest, dbgmask). length rest)")
  show "wf (measure (\<lambda>(invert, rest, dbgmask). length rest))"
    by simp
next
  fix invert :: bool and rest :: string and dbgmask :: "64 word"
    and x2 :: "string \<times> string" and subsys rest' :: string and mask :: "64 word"
  assume tok: "strtok_comma rest = Some x2" and x2: "(subsys, rest') = x2"
  define s1 where "s1 = dropWhile (\<lambda>c. c = CHR '','') rest"
  from tok x2 have ne: "s1 \<noteq> []"
    and r: "rest' = drop 1 (dropWhile (\<lambda>c. c \<noteq> CHR '','') s1)"
    by (auto simp: strtok_comma_def s1_def Let_def split: if_splits)
  have "length rest' < length s1"
  proof (cases "dropWhile (\<lambda>c. c \<noteq> CHR '','') s1 = []")
    case True
    with ne r show ?thesis by simp
  next
    case False
    then have "length rest' < length (dropWhile (\<lambda>c. c \<noteq> CHR '','') s1)"
      using r by simp
    also have "\<dots> \<le> length s1"
      by (rule length_dropWhile_le)
    finally show ?thesis .
  qed
  also have "length s1 \<le> length rest"
    unfolding s1_def by (rule length_dropWhile_le)
  finally show "((invert, rest', if mask \<noteq> 0
                 then (if invert then dbgmask AND NOT mask else dbgmask OR mask)
                 else dbgmask), invert, rest, dbgmask)
       \<in> measure (\<lambda>(invert, rest, dbgmask). length rest)"
    by simp
qed

declare subsys_loop.simps [simp del]

text \<open>
  Lines 85 to 89: a \<open>^\<close> in front is skipped and starts the mask from \<open>~0ULL\<close>;
  otherwise the mask starts from \<open>0ULL\<close>.
\<close>

definition parse_subsys :: "string \<Rightarrow> 64 word" where
  "parse_subsys e =
     (case e of
        c # e' \<Rightarrow> if c = CHR ''^'' then subsys_loop True e' (NOT 0) else subsys_loop False e 0
      | [] \<Rightarrow> subsys_loop False e 0)"

subsection \<open>ncclDebugInit: the file-path template\<close>

text \<open>
  What the file takes from outside: the three environment strings (\<open>ncclGetEnv\<close>,
  \<open>None\<close> for \<open>NULL\<close>), the host name that \<open>getHostName(hostname, 1024, '.')\<close>
  stores, the process and thread ids, whether \<open>fopen(path, "w")\<close> succeeds, the
  clocks, and the parameter \<open>NCCL_WARN_ENABLE_DEBUG_INFO\<close>. \<open>local_now\<close> is the text
  \<open>get_local_now()\<close> returns and \<open>trace_timestamp\<close> the text that \<open>%f\<close> prints for
  the milliseconds since \<open>ncclEpoch\<close> (a \<open>double\<close>): both are taken as given.
\<close>

record sys_env =
  env_NCCL_DEBUG :: "string option"
  env_NCCL_DEBUG_SUBSYS :: "string option"
  env_NCCL_DEBUG_FILE :: "string option"
  sys_hostname :: string
  sys_getpid :: int
  sys_gettid :: int
  fopen_ok :: "string \<Rightarrow> bool"
  steady_now :: int
  local_now :: string
  trace_timestamp :: string
  ncclParamWarnSetDebugInfo :: int

text \<open>
  Lines 145 to 165, the loop
  \<^verbatim>\<open>
  while (ncclDebugFileEnv[c] != '\0' && c < PATH_MAX) {
    if (ncclDebugFileEnv[c++] != '%') { *dfn++ = ncclDebugFileEnv[c-1]; continue; }
    switch (ncclDebugFileEnv[c++]) {
      case '%': *dfn++ = '%'; break;
      case 'h': dfn += snprintf(dfn, PATH_MAX, "%s", hostname); break;
      case 'p': dfn += snprintf(dfn, PATH_MAX, "%d", pid); break;
      default:  *dfn++ = '%'; *dfn++ = ncclDebugFileEnv[c-1]; break;
    }
  }
  \<close>
  \<open>env\<close> is the template, \<open>c\<close> the read index, \<open>debugFn\<close> the array of
  \<open>PATH_MAX + 1\<close> bytes and \<open>dfn\<close> the offset of the write pointer in it. The
  test reads \<open>ncclDebugFileEnv[c]\<close> before it compares \<open>c\<close> with \<open>PATH_MAX\<close>.
\<close>

function expand_loop ::
  "string \<Rightarrow> string \<Rightarrow> int \<Rightarrow> nat \<Rightarrow> char list \<Rightarrow> nat \<Rightarrow> fault + (char list \<times> nat)" where
  "expand_loop env hn p c debugFn dfn =
     (case cstr_at env c of
        Inl e \<Rightarrow> Inl e
      | Inr ch \<Rightarrow>
          if ch \<noteq> NUL \<and> c < PATH_MAX then
            (if ch \<noteq> CHR ''%'' then
               (case store_bytes debugFn dfn [ch] of
                  Inl e \<Rightarrow> Inl e
                | Inr b \<Rightarrow> expand_loop env hn p (c + 1) b (dfn + 1))
             else
               (case cstr_at env (c + 1) of
                  Inl e \<Rightarrow> Inl e
                | Inr sp \<Rightarrow>
                    if sp = CHR ''%'' then
                      (case store_bytes debugFn dfn [CHR ''%''] of
                         Inl e \<Rightarrow> Inl e
                       | Inr b \<Rightarrow> expand_loop env hn p (c + 2) b (dfn + 1))
                    else if sp = CHR ''h'' then
                      (case c_snprintf debugFn dfn PATH_MAX hn of
                         Inl e \<Rightarrow> Inl e
                       | Inr (b, n) \<Rightarrow> expand_loop env hn p (c + 2) b (dfn + n))
                    else if sp = CHR ''p'' then
                      (case c_snprintf debugFn dfn PATH_MAX (dec_int p) of
                         Inl e \<Rightarrow> Inl e
                       | Inr (b, n) \<Rightarrow> expand_loop env hn p (c + 2) b (dfn + n))
                    else
                      (case store_bytes debugFn dfn [CHR ''%'', sp] of
                         Inl e \<Rightarrow> Inl e
                       | Inr b \<Rightarrow> expand_loop env hn p (c + 2) b (dfn + 2))))
          else Inr (debugFn, dfn))"
  by pat_completeness auto
termination
  by (relation "measure (\<lambda>(env, hn, p, c, debugFn, dfn). PATH_MAX - c)") auto

declare expand_loop.simps [simp del]

text \<open>
  Lines 142 to 166: \<open>char debugFn[PATH_MAX+1] = ""\<close> is all zero, the loop runs from
  \<open>c = 0\<close>, then \<open>*dfn = '\0'\<close>. The result is the C string in \<open>debugFn\<close>.
\<close>

definition expand_debug_file :: "string \<Rightarrow> string \<Rightarrow> int \<Rightarrow> fault + string" where
  "expand_debug_file env hn p =
     (case expand_loop env hn p 0 (replicate (PATH_MAX + 1) NUL) 0 of
        Inl e \<Rightarrow> Inl e
      | Inr (b, dfn) \<Rightarrow>
          (case store_bytes b dfn [NUL] of
             Inl e \<Rightarrow> Inl e
           | Inr b' \<Rightarrow> Inr (takeWhile (\<lambda>ch. ch \<noteq> NUL) b')))"

text \<open>
  Lines 167 to 173: a non-empty path is opened; when that succeeds the new stream
  replaces \<open>ncclDebugFile\<close>.
\<close>

definition open_debug_file :: "sys_env \<Rightarrow> string \<Rightarrow> debug_state \<Rightarrow> debug_state" where
  "open_debug_file sys debugFn s =
     (if debugFn \<noteq> [] then
        (let s' = s\<lparr>fopens := fopens s @ [debugFn]\<rparr>
         in if fopen_ok sys debugFn then s'\<lparr>ncclDebugFile := DebugFile debugFn\<rparr> else s')
      else s)"

subsection \<open>ncclDebugInit\<close>

text \<open>
  Lines 61 to 181. The mutex is not modelled: the function is read as one
  uninterrupted run.
\<close>

definition ncclDebugInit :: "sys_env \<Rightarrow> debug_state \<Rightarrow> fault + debug_state" where
  "ncclDebugInit sys s =
     (if ncclDebugLevel s \<noteq> -1 then Inr s
      else
        let tempNcclDebugLevel = parse_level (env_NCCL_DEBUG sys);
            s1 = (case env_NCCL_DEBUG_SUBSYS sys of
                    None \<Rightarrow> s
                  | Some e \<Rightarrow> s\<lparr>ncclDebugMask := parse_subsys e\<rparr>);
            s2 = s1\<lparr>hostname := sys_hostname sys, pid := sys_getpid sys\<rparr>;
            r = (if tempNcclDebugLevel > level_val NCCL_LOG_VERSION then
                   (case env_NCCL_DEBUG_FILE sys of
                      None \<Rightarrow> Inr s2
                    | Some f \<Rightarrow>
                        (case expand_debug_file f (hostname s2) (pid s2) of
                           Inl e \<Rightarrow> Inl e
                         | Inr debugFn \<Rightarrow> Inr (open_debug_file sys debugFn s2)))
                 else Inr s2)
        in case r of
             Inl e \<Rightarrow> Inl e
           | Inr s3 \<Rightarrow>
               Inr (s3\<lparr>ncclEpoch := steady_now sys, ncclDebugLevel := tempNcclDebugLevel\<rparr>))"

subsection \<open>ncclDebugLog\<close>

text \<open>The variables of the calling thread (\<open>thread_local\<close>, \<open>__thread\<close>).\<close>

record thread_state =
  ncclDebugNoWarn :: int
  tid :: int

definition initial_thread :: thread_state where
  "initial_thread = \<lparr>ncclDebugNoWarn = 0, tid = -1\<rparr>"

text \<open>
  The prefix texts of lines 229 to 247, before \<open>snprintf\<close> cuts them to the buffer:
  \<^verbatim>\<open>"[%s/%s][%s] [%s:%d] [%s:pid=%d] NCCL WARN "\<close> (and \<open>INFO\<close>),
  \<^verbatim>\<open>"[%s:pid=%d] NCCL CALL "\<close> and \<^verbatim>\<open>"[%s:pid=%d] %f %s:%d NCCL TRACE "\<close>.
\<close>

definition prefix_level :: "string \<Rightarrow> sys_env \<Rightarrow> debug_state \<Rightarrow> string \<Rightarrow> int \<Rightarrow> string" where
  "prefix_level label sys s filefunc line =
     ''['' @ rank s @ ''/'' @ nranks s @ '']['' @ local_now sys @ ''] ['' @ filefunc @ '':'' @
     dec_int line @ ''] ['' @ hostname s @ '':pid='' @ dec_int (pid s) @ ''] NCCL '' @ label @ '' ''"

definition prefix_call :: "debug_state \<Rightarrow> string" where
  "prefix_call s = ''['' @ hostname s @ '':pid='' @ dec_int (pid s) @ ''] NCCL CALL ''"

definition prefix_trace :: "sys_env \<Rightarrow> debug_state \<Rightarrow> string \<Rightarrow> int \<Rightarrow> string" where
  "prefix_trace sys s filefunc line =
     ''['' @ hostname s @ '':pid='' @ dec_int (pid s) @ ''] '' @ trace_timestamp sys @ '' '' @
     filefunc @ '':'' @ dec_int line @ '' NCCL TRACE ''"

text \<open>
  Lines 226 to 248: the branch on the level. \<open>None\<close> is "no branch taken"
  (\<open>len\<close> stays 0); otherwise the prefix text that \<open>snprintf\<close> is asked to print.
\<close>

definition select_prefix ::
  "sys_env \<Rightarrow> debug_state \<Rightarrow> ncclDebugLogLevel \<Rightarrow> 64 word \<Rightarrow> string \<Rightarrow> int \<Rightarrow> string option" where
  "select_prefix sys s level flags filefunc line =
     (if level = NCCL_LOG_WARN then Some (prefix_level ''WARN'' sys s filefunc line)
      else if level = NCCL_LOG_INFO then Some (prefix_level ''INFO'' sys s filefunc line)
      else if level = NCCL_LOG_TRACE \<and> flags = NCCL_CALL then Some (prefix_call s)
      else if level = NCCL_LOG_TRACE then Some (prefix_trace sys s filefunc line)
      else None)"

text \<open>
  Lines 226 to 259 for a prefix text \<open>pre\<close> and the formatted message \<open>msg\<close>:
  \<^verbatim>\<open>
  char buffer[2048];
  len = snprintf(buffer, sizeof(buffer), <prefix>);
  if (len) {
    len += vsnprintf(buffer+len, sizeof(buffer)-len, fmt, vargs);
    if (len > sizeof(buffer)) len = sizeof(buffer)-1;
    buffer[len++] = '\n';
    fwrite(buffer, 1, len, ncclDebugFile);
  }
  \<close>
  The result is the block handed to \<open>fwrite\<close>, \<open>None\<close> when \<open>len\<close> is 0. The bytes
  of the uninitialised buffer are written as NUL; every byte handed to \<open>fwrite\<close>
  has been stored before.
\<close>

definition assemble_line :: "string \<Rightarrow> string \<Rightarrow> fault + string option" where
  "assemble_line pre msg =
     (case c_snprintf (replicate 2048 NUL) 0 2048 pre of
        Inl e \<Rightarrow> Inl e
      | Inr (b1, len) \<Rightarrow>
          if len = 0 then Inr None
          else
            (case c_snprintf b1 len (size_t_sub 2048 len) msg of
               Inl e \<Rightarrow> Inl e
             | Inr (b2, n) \<Rightarrow>
                 (let len1 = size_t_add len n;
                      len2 = (if len1 > 2048 then 2048 - 1 else len1)
                  in case store_bytes b2 len2 [CHR 0x0A] of
                       Inl e \<Rightarrow> Inl e
                     | Inr b3 \<Rightarrow> Inr (Some (take (len2 + 1) b3)))))"

text \<open>
  Line 207: the lazy initialisation of the first call.
\<close>

definition lazy_init :: "sys_env \<Rightarrow> debug_state \<Rightarrow> fault + debug_state" where
  "lazy_init sys s = (if ncclDebugLevel s = -1 then ncclDebugInit sys s else Inr s)"

text \<open>
  Line 208: the per-thread override. The \<open>int\<close> \<open>ncclDebugNoWarn\<close> becomes the
  \<open>unsigned long\<close> \<open>flags\<close> by the usual conversion.
\<close>

definition apply_no_warn ::
  "thread_state \<Rightarrow> ncclDebugLogLevel \<Rightarrow> 64 word \<Rightarrow> ncclDebugLogLevel \<times> 64 word" where
  "apply_no_warn t level flags =
     (if ncclDebugNoWarn t \<noteq> 0 \<and> level = NCCL_LOG_WARN
      then (NCCL_LOG_INFO, word_of_int (ncclDebugNoWarn t))
      else (level, flags))"

text \<open>
  Lines 211 to 218: \<open>vsnprintf(ncclLastError, sizeof(ncclLastError), fmt, vargs)\<close>
  with \<open>sizeof(ncclLastError) = 1024\<close> keeps the first 1023 bytes of the message.
\<close>

definition save_last_error :: "ncclDebugLogLevel \<Rightarrow> string \<Rightarrow> debug_state \<Rightarrow> debug_state" where
  "save_last_error level msg s =
     (if level = NCCL_LOG_WARN then s\<lparr>ncclLastError := take (1024 - 1) msg\<rparr> else s)"

text \<open>
  Lines 219 to 260, after the override and the last-error step: the filter, the
  thread id, the prefix (with the ratchet of line 234) and the write.
\<close>

definition filter_and_emit ::
  "sys_env \<Rightarrow> ncclDebugLogLevel \<Rightarrow> 64 word \<Rightarrow> string \<Rightarrow> int \<Rightarrow> string \<Rightarrow>
   debug_state \<times> thread_state \<Rightarrow> fault + (debug_state \<times> thread_state)" where
  "filter_and_emit sys level flags filefunc line msg st =
     (case st of (s, t) \<Rightarrow>
        if ncclDebugLevel s < level_val level \<or> flags AND ncclDebugMask s = 0 then Inr (s, t)
        else
          (let t1 = (if tid t = -1 then t\<lparr>tid := sys_gettid sys\<rparr> else t);
               pre = select_prefix sys s level flags filefunc line;
               s1 = (if level = NCCL_LOG_WARN \<and> ncclParamWarnSetDebugInfo sys \<noteq> 0
                     then s\<lparr>ncclDebugLevel := level_val NCCL_LOG_INFO\<rparr> else s)
           in case pre of
                None \<Rightarrow> Inr (s1, t1)
              | Some ptxt \<Rightarrow>
                  (case assemble_line ptxt msg of
                     Inl e \<Rightarrow> Inl e
                   | Inr None \<Rightarrow> Inr (s1, t1)
                   | Inr (Some bytes) \<Rightarrow>
                       Inr (s1\<lparr>fwrites := fwrites s1 @ [(ncclDebugFile s1, bytes)]\<rparr>, t1))))"

text \<open>
  \<open>ncclDebugLog(level, flags, filefunc, line, fmt, ...)\<close>, lines 206 to 261; \<open>msg\<close>
  is the complete text that \<open>fmt\<close> and its arguments format to.
\<close>

definition ncclDebugLog ::
  "sys_env \<Rightarrow> ncclDebugLogLevel \<Rightarrow> 64 word \<Rightarrow> string \<Rightarrow> int \<Rightarrow> string \<Rightarrow>
   debug_state \<times> thread_state \<Rightarrow> fault + (debug_state \<times> thread_state)" where
  "ncclDebugLog sys level flags filefunc line msg st =
     (case st of (s, t) \<Rightarrow>
        (case lazy_init sys s of
           Inl e \<Rightarrow> Inl e
         | Inr s0 \<Rightarrow>
             (case apply_no_warn t level flags of (level', flags') \<Rightarrow>
                filter_and_emit sys level' flags' filefunc line msg
                  (save_last_error level' msg s0, t))))"

subsection \<open>The spec's template grammar\<close>

text \<open>
  The expansion grammar in the spec's words, for comparison with \<open>expand_debug_file\<close>:
  \<open>%h\<close> is the hostname, \<open>%p\<close> the process id, \<open>%%\<close> a \<open>%\<close>, any other \<open>%X\<close> both
  characters, and every other character itself. (A \<open>%\<close> that is the last character
  has no \<open>X\<close>; it is kept.)
\<close>

fun spec_expand :: "string \<Rightarrow> string \<Rightarrow> int \<Rightarrow> string" where
  "spec_expand [] hn p = []"
| "spec_expand [c] hn p = [c]"
| "spec_expand (c # x # r) hn p =
     (if c \<noteq> CHR ''%'' then c # spec_expand (x # r) hn p
      else if x = CHR ''h'' then hn @ spec_expand r hn p
      else if x = CHR ''p'' then dec_int p @ spec_expand r hn p
      else if x = CHR ''%'' then CHR ''%'' # spec_expand r hn p
      else CHR ''%'' # x # spec_expand r hn p)"

text \<open>
  A template in which every \<open>%\<close> that starts a specifier is followed by a character,
  that is, the template does not end in an unpaired \<open>%\<close>.
\<close>

fun percent_paired :: "string \<Rightarrow> bool" where
  "percent_paired [] = True"
| "percent_paired [c] = (c \<noteq> CHR ''%'')"
| "percent_paired (c # x # r) = (if c \<noteq> CHR ''%'' then percent_paired (x # r) else percent_paired r)"

subsection \<open>The spec's subsystem list\<close>

text \<open>
  The subsystem list in the spec's words, for comparison with \<open>parse_subsys\<close>: the
  names and their subsystems, matched without regard to letter case; the tokens are
  the pieces between commas.
\<close>

definition subsys_table :: "(string \<times> 64 word) list" where
  "subsys_table =
     [(''INIT'', NCCL_INIT), (''COLL'', NCCL_COLL), (''P2P'', NCCL_P2P), (''SHM'', NCCL_SHM),
      (''NET'', NCCL_NET), (''GRAPH'', NCCL_GRAPH), (''TUNING'', NCCL_TUNING), (''ENV'', NCCL_ENV),
      (''ALLOC'', NCCL_ALLOC), (''CALL'', NCCL_CALL), (''PROXY'', NCCL_PROXY), (''NVLS'', NCCL_NVLS),
      (''BOOTSTRAP'', NCCL_BOOTSTRAP), (''REG'', NCCL_REG), (''ALL'', NCCL_ALL)]"

definition spec_token_mask :: "string \<Rightarrow> 64 word" where
  "spec_token_mask tok =
     (case find (\<lambda>(name, m). strcasecmp_eq tok name) subsys_table of
        Some (name, m) \<Rightarrow> m
      | None \<Rightarrow> 0)"

fun split_commas :: "string \<Rightarrow> string list" where
  "split_commas [] = [[]]"
| "split_commas (c # cs) =
     (if c = CHR '','' then [] # split_commas cs
      else (case split_commas cs of tok # toks \<Rightarrow> (c # tok) # toks | [] \<Rightarrow> [[c]]))"

text \<open>
  One token's effect on the mask: in the inverted mode its subsystems are removed,
  otherwise added. An unknown token has mask 0 and changes nothing either way.
\<close>

definition spec_step :: "bool \<Rightarrow> string \<Rightarrow> 64 word \<Rightarrow> 64 word" where
  "spec_step invert tok m =
     (if invert then m AND NOT (spec_token_mask tok) else m OR spec_token_mask tok)"

text \<open>
  A leading \<open>^\<close> starts from the full set and removes; otherwise the parse starts
  from the empty set and adds.
\<close>

definition spec_parse_subsys :: "string \<Rightarrow> 64 word" where
  "spec_parse_subsys e =
     (case e of
        c # r \<Rightarrow>
          if c = CHR ''^'' then fold (spec_step True) (split_commas r) (NOT 0)
          else fold (spec_step False) (split_commas e) 0
      | [] \<Rightarrow> fold (spec_step False) (split_commas e) 0)"

subsection \<open>A concrete environment and state for evaluation\<close>

definition example_sys :: sys_env where
  "example_sys =
     \<lparr>env_NCCL_DEBUG = Some ''INFO'', env_NCCL_DEBUG_SUBSYS = None, env_NCCL_DEBUG_FILE = None,
      sys_hostname = ''h1'', sys_getpid = 42, sys_gettid = 43, fopen_ok = (\<lambda>path. True),
      steady_now = 0, local_now = ''2024-01-01 00:00:00,000'', trace_timestamp = ''1.000000'',
      ncclParamWarnSetDebugInfo = 0\<rparr>"

text \<open>The state after \<open>NCCL_DEBUG=INFO\<close> has been read on host \<open>h1\<close>, process 42.\<close>

definition example_state :: debug_state where
  "example_state =
     initial_state\<lparr>ncclDebugLevel := level_val NCCL_LOG_INFO, hostname := ''h1'', pid := 42\<rparr>"

section \<open>Properties\<close>

subsection \<open>Evaluation rules and frame lemmas\<close>

lemmas subsys_defs =
  NCCL_INIT_def NCCL_COLL_def NCCL_P2P_def NCCL_SHM_def NCCL_NET_def NCCL_GRAPH_def
  NCCL_TUNING_def NCCL_ENV_def NCCL_ALLOC_def NCCL_CALL_def NCCL_PROXY_def NCCL_NVLS_def
  NCCL_BOOTSTRAP_def NCCL_REG_def NCCL_ALL_def

lemmas dec_eval = dec_int_def dec_nat.simps digit_char_def

lemmas str_eval = strcasecmp_eq_def c_tolower_def

lemma numDigits_nonpos: "n \<le> 0 \<Longrightarrow> numDigits n = 0"
  by (simp add: numDigits_def numDigits_loop.simps)

lemma ncclDebugInit_fwrites:
  "ncclDebugInit sys s = Inr s' \<Longrightarrow> fwrites s' = fwrites s"
  by (auto simp: ncclDebugInit_def open_debug_file_def Let_def
           split: if_splits option.splits sum.splits)

lemma ncclDebugInit_last_error:
  "ncclDebugInit sys s = Inr s' \<Longrightarrow> ncclLastError s' = ncclLastError s"
  by (auto simp: ncclDebugInit_def open_debug_file_def Let_def
           split: if_splits option.splits sum.splits)

lemma lazy_init_fwrites:
  "lazy_init sys s = Inr s' \<Longrightarrow> fwrites s' = fwrites s"
  by (auto simp: lazy_init_def ncclDebugInit_fwrites split: if_splits)

lemma lazy_init_last_error:
  "lazy_init sys s = Inr s' \<Longrightarrow> ncclLastError s' = ncclLastError s"
  by (auto simp: lazy_init_def ncclDebugInit_last_error split: if_splits)

lemma lazy_init_initialised:
  "ncclDebugLevel s \<noteq> -1 \<Longrightarrow> lazy_init sys s = Inr s"
  by (simp add: lazy_init_def)

lemma filter_and_emit_last_error:
  "filter_and_emit sys level flags ff ln msg (s, t) = Inr (s', t') \<Longrightarrow>
   ncclLastError s' = ncclLastError s"
  by (auto simp: filter_and_emit_def Let_def split: if_splits option.splits sum.splits)

lemma filter_and_emit_dropped:
  "ncclDebugLevel s < level_val level \<or> flags AND ncclDebugMask s = 0 \<Longrightarrow>
   filter_and_emit sys level flags ff ln msg (s, t) = Inr (s, t)"
  by (simp add: filter_and_emit_def)

lemma select_prefix_none:
  "level \<noteq> NCCL_LOG_WARN \<Longrightarrow> level \<noteq> NCCL_LOG_INFO \<Longrightarrow> level \<noteq> NCCL_LOG_TRACE \<Longrightarrow>
   select_prefix sys s level flags ff ln = None"
  by (simp add: select_prefix_def)

lemma filter_and_emit_no_prefix:
  "level \<noteq> NCCL_LOG_WARN \<Longrightarrow> level \<noteq> NCCL_LOG_INFO \<Longrightarrow> level \<noteq> NCCL_LOG_TRACE \<Longrightarrow>
   \<exists>t'. filter_and_emit sys level flags ff ln msg (s, t) = Inr (s, t')"
  by (simp add: filter_and_emit_def select_prefix_none Let_def)

subsection \<open>Line assembly: what the two snprintf calls and the newline store do\<close>

lemma store_bytes_padded:
  "length bs \<le> k \<Longrightarrow>
   store_bytes (out @ replicate k NUL) (length out) bs = Inr (out @ bs @ replicate (k - length bs) NUL)"
  by (simp add: store_bytes_def)

lemma snprintf_prefix:
  "c_snprintf (replicate 2048 NUL) 0 2048 pre =
     Inr (take 2047 pre @ replicate (2048 - min (length pre) 2047) NUL, length pre)"
proof -
  have "store_bytes ([] @ replicate 2048 NUL) (length ([]::string)) (take 2047 pre @ [NUL]) =
        Inr ([] @ (take 2047 pre @ [NUL]) @ replicate (2048 - length (take 2047 pre @ [NUL])) NUL)"
    by (rule store_bytes_padded) simp
  moreover have "[NUL] @ replicate (2048 - length (take 2047 pre @ [NUL])) NUL
        = replicate (2048 - min (length pre) 2047) NUL"
  proof -
    have "2048 - min (length pre) 2047 = Suc (2048 - length (take 2047 pre @ [NUL]))"
      by (simp add: min_def) arith
    then show ?thesis by simp
  qed
  ultimately show ?thesis
    by (simp add: c_snprintf_def)
qed

lemma size_t_sub_small:
  assumes "b \<le> a" and "a < 2 ^ 64"
  shows "size_t_sub a b = a - b"
proof -
  have b: "b mod 2 ^ 64 = b" using assms by simp
  have "a + 2 ^ 64 - b = (a - b) + 2 ^ 64" using assms by simp
  then have "(a + 2 ^ 64 - b) mod 2 ^ 64 = (a - b) mod 2 ^ 64"
    by (simp only: mod_add_self2)
  also have "\<dots> = a - b" using assms by simp
  finally show ?thesis by (simp only: size_t_sub_def b)
qed

lemma size_t_add_small: "a + b < 2 ^ 64 \<Longrightarrow> size_t_add a b = a + b"
  by (simp add: size_t_add_def)

lemma assemble_line_fits_short:
  assumes ne: "pre \<noteq> []" and fit: "length pre + length msg < 2048"
  shows "assemble_line pre msg = Inr (Some (pre @ msg @ [CHR 0x0A]))"
proof -
  let ?p = "length pre" and ?m = "length msg"
  have b1: "c_snprintf (replicate 2048 NUL) 0 2048 pre = Inr (pre @ replicate (2048 - ?p) NUL, ?p)"
    using fit by (simp add: snprintf_prefix min_def)
  have sz: "size_t_sub 2048 ?p = 2048 - ?p"
    using fit by (simp add: size_t_sub_small)
  have st2: "store_bytes (pre @ replicate (2048 - ?p) NUL) ?p (msg @ [NUL])
        = Inr (pre @ (msg @ [NUL]) @ replicate (2048 - ?p - length (msg @ [NUL])) NUL)"
    by (rule store_bytes_padded) (use fit in simp)
  have b2: "c_snprintf (pre @ replicate (2048 - ?p) NUL) ?p (2048 - ?p) msg
        = Inr ((pre @ msg) @ replicate (2048 - (?p + ?m)) NUL, ?m)"
  proof -
    have "[NUL] @ replicate (2048 - ?p - length (msg @ [NUL])) NUL = replicate (2048 - (?p + ?m)) NUL"
    proof -
      have "2048 - (?p + ?m) = Suc (2048 - ?p - length (msg @ [NUL]))" using fit by simp
      then show ?thesis by simp
    qed
    then show ?thesis using fit st2 by (simp add: c_snprintf_def)
  qed
  have ad: "size_t_add ?p ?m = ?p + ?m"
    using fit by (simp add: size_t_add_small)
  have st3: "store_bytes ((pre @ msg) @ replicate (2048 - (?p + ?m)) NUL) (length (pre @ msg)) [CHR 0x0A]
        = Inr ((pre @ msg) @ [CHR 0x0A] @ replicate (2048 - (?p + ?m) - length [CHR 0x0A]) NUL)"
    by (rule store_bytes_padded) (use fit in simp)
  show ?thesis
    using ne fit st3 by (simp add: assemble_line_def b1 sz b2 ad Let_def)
qed


lemma c_snprintf_zero: "c_snprintf b d 0 txt = Inr (b, length txt)"
  by (simp add: c_snprintf_def)

lemma vsnprintf_cut:
  assumes p: "length pre < 2048" and m: "2048 \<le> length pre + length msg"
  shows "c_snprintf (pre @ replicate (2048 - length pre) NUL) (length pre) (2048 - length pre) msg
         = Inr (take 2047 (pre @ msg) @ [NUL], length msg)"
proof -
  let ?p = "length pre"
  have len: "length (take (2048 - ?p - 1) msg @ [NUL]) = 2048 - ?p"
    using p m by simp
  have "store_bytes (pre @ replicate (2048 - ?p) NUL) ?p (take (2048 - ?p - 1) msg @ [NUL])
        = Inr (pre @ (take (2048 - ?p - 1) msg @ [NUL]) @
               replicate (2048 - ?p - length (take (2048 - ?p - 1) msg @ [NUL])) NUL)"
    by (rule store_bytes_padded) (simp only: len)
  then have "store_bytes (pre @ replicate (2048 - ?p) NUL) ?p (take (2048 - ?p - 1) msg @ [NUL])
        = Inr (pre @ take (2047 - ?p) msg @ [NUL])"
    by (simp only: len) simp
  moreover have "take 2047 (pre @ msg) = pre @ take (2047 - ?p) msg"
    using p by simp
  ultimately show ?thesis
    using p by (simp add: c_snprintf_def)
qed

lemma assemble_line_unfold:
  assumes b1: "c_snprintf (replicate 2048 NUL) 0 2048 pre = Inr (buf1, length pre)"
    and b2: "c_snprintf buf1 (length pre) (size_t_sub 2048 (length pre)) msg = Inr (buf2, length msg)"
    and ne: "pre \<noteq> []"
  shows "assemble_line pre msg =
           (let len1 = size_t_add (length pre) (length msg);
                len2 = (if len1 > 2048 then 2048 - 1 else len1)
            in case store_bytes buf2 len2 [CHR 0x0A] of
                 Inl e \<Rightarrow> Inl e
               | Inr b3 \<Rightarrow> Inr (Some (take (len2 + 1) b3)))"
  using ne by (simp add: assemble_line_def b1 b2)

lemma two_snprintf_cut:
  assumes p: "length pre \<le> 2048" and big: "2048 \<le> length pre + length msg"
  obtains buf1 where
    "c_snprintf (replicate 2048 NUL) 0 2048 pre = Inr (buf1, length pre)"
    "c_snprintf buf1 (length pre) (size_t_sub 2048 (length pre)) msg
       = Inr (take 2047 (pre @ msg) @ [NUL], length msg)"
proof (cases "length pre = 2048")
  case True
  have b1: "c_snprintf (replicate 2048 NUL) 0 2048 pre = Inr (take 2047 (pre @ msg) @ [NUL], length pre)"
    using True by (simp add: snprintf_prefix)
  have sz: "size_t_sub 2048 (length pre) = 0"
    using True by (simp add: size_t_sub_small)
  show ?thesis
    by (rule that [OF b1]) (simp only: sz c_snprintf_zero)
next
  case False
  with p have p': "length pre < 2048" by simp
  have b1: "c_snprintf (replicate 2048 NUL) 0 2048 pre
            = Inr (pre @ replicate (2048 - length pre) NUL, length pre)"
    using p' by (simp add: snprintf_prefix min_def)
  have sz: "size_t_sub 2048 (length pre) = 2048 - length pre"
    using p' by (simp add: size_t_sub_small)
  show ?thesis
    by (rule that [OF b1]) (simp only: sz vsnprintf_cut [OF p' big])
qed

lemma assemble_line_fits_cut:
  assumes ne: "pre \<noteq> []" and p: "length pre \<le> 2048" and big: "2048 < length pre + length msg"
    and m: "length msg < 2 ^ 31"
  shows "assemble_line pre msg = Inr (Some (take 2047 (pre @ msg) @ [CHR 0x0A]))"
proof -
  define out where "out = take 2047 (pre @ msg)"
  have lo: "length out = 2047" using big by (simp add: out_def)
  from big have big': "2048 \<le> length pre + length msg" by simp
  obtain buf1 where
    b1: "c_snprintf (replicate 2048 NUL) 0 2048 pre = Inr (buf1, length pre)" and
    b2: "c_snprintf buf1 (length pre) (size_t_sub 2048 (length pre)) msg = Inr (out @ [NUL], length msg)"
    unfolding out_def by (rule two_snprintf_cut [OF p big'])
  have ad: "size_t_add (length pre) (length msg) = length pre + length msg"
    using p m by (simp add: size_t_add_small)
  have st3: "store_bytes (out @ [NUL]) 2047 [CHR 0x0A] = Inr (out @ [CHR 0x0A])"
    using store_bytes_padded [of "[CHR 0x0A]" 1 out] lo by simp
  have "assemble_line pre msg = Inr (Some (out @ [CHR 0x0A]))"
    unfolding assemble_line_unfold [OF b1 b2 ne]
    using big lo by (simp add: Let_def ad st3)
  then show ?thesis
    by (simp only: out_def)
qed

lemma assemble_line_off_by_one:
  assumes ne: "pre \<noteq> []" and eq: "length pre + length msg = 2048"
  shows "assemble_line pre msg = Inl (WriteOutOfBounds 2048)"
proof -
  define out where "out = take 2047 (pre @ msg)"
  have lo: "length out = 2047" using eq by (simp add: out_def)
  from eq have p: "length pre \<le> 2048" and big: "2048 \<le> length pre + length msg" by simp_all
  obtain buf1 where
    b1: "c_snprintf (replicate 2048 NUL) 0 2048 pre = Inr (buf1, length pre)" and
    b2: "c_snprintf buf1 (length pre) (size_t_sub 2048 (length pre)) msg = Inr (out @ [NUL], length msg)"
    unfolding out_def by (rule two_snprintf_cut [OF p big])
  have ad: "size_t_add (length pre) (length msg) = 2048"
    using eq by (simp add: size_t_add_def)
  have st3: "store_bytes (out @ [NUL]) 2048 [CHR 0x0A] = Inl (WriteOutOfBounds 2048)"
    using lo by (simp add: store_bytes_def)
  show ?thesis
    unfolding assemble_line_unfold [OF b1 b2 ne]
    by (simp add: Let_def ad st3)
qed

lemma assemble_line_long_prefix:
  assumes p: "2048 < length pre" and b: "length pre < 2 ^ 31"
  shows "assemble_line pre msg = Inl (WriteOutOfBounds (length pre))"
proof -
  let ?p = "length pre"
  have b1: "c_snprintf (replicate 2048 NUL) 0 2048 pre = Inr (take 2047 pre @ [NUL], ?p)"
    using p by (simp add: snprintf_prefix min_def)
  have "size_t_sub 2048 ?p = 2 ^ 64 + 2048 - ?p"
  proof -
    have "?p mod 2 ^ 64 = ?p" using b by simp
    moreover have "(2048 + 2 ^ 64 - ?p) mod 2 ^ 64 = 2048 + 2 ^ 64 - ?p"
      using p b by simp
    ultimately show ?thesis by (simp add: size_t_sub_def)
  qed
  then have sz: "size_t_sub 2048 ?p \<noteq> 0"
    using b by simp
  have "store_bytes (take 2047 pre @ [NUL]) ?p (take (size_t_sub 2048 ?p - 1) msg @ [NUL])
        = Inl (WriteOutOfBounds ?p)"
    using p by (simp add: store_bytes_def max_def)
  then have b2: "c_snprintf (take 2047 pre @ [NUL]) ?p (size_t_sub 2048 ?p) msg
        = Inl (WriteOutOfBounds ?p)"
    using sz by (simp add: c_snprintf_def)
  have "?p \<noteq> 0" using p by auto
  then show ?thesis
    by (simp add: assemble_line_def b1 b2)
qed

lemma assemble_line_ok:
  assumes ne: "pre \<noteq> []" and p: "length pre \<le> 2048"
    and neq: "length pre + length msg \<noteq> 2048" and m: "length msg < 2 ^ 31"
  shows "assemble_line pre msg = Inr (Some (take 2047 (pre @ msg) @ [CHR 0x0A]))"
proof (cases "length pre + length msg < 2048")
  case True
  then have "take 2047 (pre @ msg) = pre @ msg" by simp
  then show ?thesis
    using assemble_line_fits_short [OF ne True] by simp
next
  case False
  with neq have "2048 < length pre + length msg" by simp
  then show ?thesis
    by (rule assemble_line_fits_cut [OF ne p _ m])
qed

subsection \<open>ncclDebugLog on an initialised state\<close>

lemma save_last_error_frame [simp]:
  "ncclDebugLevel (save_last_error level msg s) = ncclDebugLevel s"
  "ncclDebugMask (save_last_error level msg s) = ncclDebugMask s"
  "ncclDebugFile (save_last_error level msg s) = ncclDebugFile s"
  "fwrites (save_last_error level msg s) = fwrites s"
  "prefix_level label sys (save_last_error level msg s) ff ln = prefix_level label sys s ff ln"
  "select_prefix sys (save_last_error level msg s) lv fl ff ln = select_prefix sys s lv fl ff ln"
  by (simp_all add: save_last_error_def select_prefix_def prefix_level_def prefix_call_def
        prefix_trace_def)

lemma prefix_level_nonempty: "prefix_level label sys s ff ln \<noteq> []"
  by (simp add: prefix_level_def)

lemma ncclDebugLog_initialised:
  "ncclDebugLevel s \<noteq> -1 \<Longrightarrow>
   ncclDebugLog sys level flags ff ln msg (s, t) =
     (case apply_no_warn t level flags of (level', flags') \<Rightarrow>
        filter_and_emit sys level' flags' ff ln msg (save_last_error level' msg s, t))"
  by (simp add: ncclDebugLog_def lazy_init_def)

lemma filter_and_emit_line:
  assumes pass: "\<not> (ncclDebugLevel s < level_val level \<or> flags AND ncclDebugMask s = 0)"
    and pre: "select_prefix sys s level flags ff ln = Some ptxt"
    and asm: "assemble_line ptxt msg = Inr (Some bytes)"
  shows "\<exists>s' t'. filter_and_emit sys level flags ff ln msg (s, t) = Inr (s', t') \<and>
           fwrites s' = fwrites s @ [(ncclDebugFile s, bytes)]"
  using pass by (simp add: filter_and_emit_def pre asm Let_def)

lemma filter_and_emit_fault:
  assumes pass: "\<not> (ncclDebugLevel s < level_val level \<or> flags AND ncclDebugMask s = 0)"
    and pre: "select_prefix sys s level flags ff ln = Some ptxt"
    and asm: "assemble_line ptxt msg = Inl e"
  shows "filter_and_emit sys level flags ff ln msg (s, t) = Inl e"
  using pass by (simp add: filter_and_emit_def pre asm Let_def)

lemma example_prefix_warn:
  "prefix_level ''WARN'' example_sys example_state ''init.cc'' 7
     = ''[?/?][2024-01-01 00:00:00,000] [init.cc:7] [h1:pid=42] NCCL WARN ''"
  by (simp add: prefix_level_def example_sys_def example_state_def initial_state_def dec_eval)

lemma example_prefix_info:
  "prefix_level ''INFO'' example_sys example_state ''init.cc'' 7
     = ''[?/?][2024-01-01 00:00:00,000] [init.cc:7] [h1:pid=42] NCCL INFO ''"
  by (simp add: prefix_level_def example_sys_def example_state_def initial_state_def dec_eval)

lemma ncclDebugLog_after_init:
  "lazy_init sys s = Inr s0 \<Longrightarrow>
   ncclDebugLog sys level flags ff ln msg (s, t) =
     (case apply_no_warn t level flags of (level', flags') \<Rightarrow>
        filter_and_emit sys level' flags' ff ln msg (save_last_error level' msg s0, t))"
  by (simp add: ncclDebugLog_def)

subsection \<open>The template loop, one segment at a time\<close>

lemma cstr_at_mid: "cstr_at (pre @ c # r) (length pre) = Inr c"
  by (simp add: cstr_at_def)

lemma cstr_at_mid1: "cstr_at (pre @ c # x # r) (Suc (length pre)) = Inr x"
  by (simp add: cstr_at_def nth_append)

lemma cstr_at_end: "cstr_at s (length s) = Inr NUL"
  by (simp add: cstr_at_def)

lemma store_dbuf:
  assumes "length out + length bs \<le> PATH_MAX + 1"
  shows "store_bytes (out @ replicate (PATH_MAX + 1 - length out) NUL) (length out) bs
         = Inr ((out @ bs) @ replicate (PATH_MAX + 1 - length (out @ bs)) NUL)"
proof -
  have "length bs \<le> PATH_MAX + 1 - length out" using assms by simp
  from store_bytes_padded [OF this, of out] show ?thesis
    by (simp add: algebra_simps)
qed

lemma snprintf_dbuf:
  assumes fit: "length out + length s \<le> PATH_MAX" and cut: "length s < PATH_MAX"
  shows "c_snprintf (out @ replicate (PATH_MAX + 1 - length out) NUL) (length out) PATH_MAX s
         = Inr ((out @ s) @ replicate (PATH_MAX + 1 - length (out @ s)) NUL, length s)"
proof -
  have tk: "take (PATH_MAX - 1) s = s" using cut by simp
  have nz: "PATH_MAX \<noteq> 0" using cut by simp
  have "length (s @ [NUL]) \<le> PATH_MAX + 1 - length out" using fit by simp
  from store_bytes_padded [OF this, of out]
  have "store_bytes (out @ replicate (PATH_MAX + 1 - length out) NUL) (length out) (s @ [NUL])
        = Inr (out @ (s @ [NUL]) @ replicate (PATH_MAX + 1 - length out - length (s @ [NUL])) NUL)" .
  moreover have "[NUL] @ replicate (PATH_MAX + 1 - length out - length (s @ [NUL])) NUL
        = replicate (PATH_MAX + 1 - length (out @ s)) NUL"
  proof -
    have "PATH_MAX + 1 - length (out @ s) = Suc (PATH_MAX + 1 - length out - length (s @ [NUL]))"
      using fit by simp
    then show ?thesis by simp
  qed
  ultimately show ?thesis
    unfolding c_snprintf_def tk using nz by simp
qed

lemma expand_step_plain:
  assumes "cstr_at env c = Inr ch" and "ch \<noteq> NUL" and "c < PATH_MAX" and "ch \<noteq> CHR ''%''"
    and "store_bytes buf dfn [ch] = Inr b"
  shows "expand_loop env hn p c buf dfn = expand_loop env hn p (c + 1) b (dfn + 1)"
  using assms by (subst expand_loop.simps) simp

lemma expand_step_percent:
  assumes "cstr_at env c = Inr CHR ''%''" and "c < PATH_MAX" and "cstr_at env (c + 1) = Inr sp"
  shows "expand_loop env hn p c buf dfn =
     (if sp = CHR ''%'' then
        (case store_bytes buf dfn [CHR ''%''] of
           Inl e \<Rightarrow> Inl e
         | Inr b \<Rightarrow> expand_loop env hn p (c + 2) b (dfn + 1))
      else if sp = CHR ''h'' then
        (case c_snprintf buf dfn PATH_MAX hn of
           Inl e \<Rightarrow> Inl e
         | Inr (b, n) \<Rightarrow> expand_loop env hn p (c + 2) b (dfn + n))
      else if sp = CHR ''p'' then
        (case c_snprintf buf dfn PATH_MAX (dec_int p) of
           Inl e \<Rightarrow> Inl e
         | Inr (b, n) \<Rightarrow> expand_loop env hn p (c + 2) b (dfn + n))
      else
        (case store_bytes buf dfn [CHR ''%'', sp] of
           Inl e \<Rightarrow> Inl e
         | Inr b \<Rightarrow> expand_loop env hn p (c + 2) b (dfn + 2)))"
  using assms by (subst expand_loop.simps) (simp add: NUL_def)

lemma expand_step_end:
  assumes "cstr_at env c = Inr NUL"
  shows "expand_loop env hn p c buf dfn = Inr (buf, dfn)"
  using assms by (subst expand_loop.simps) simp

lemma expand_loop_segment:
  assumes "NUL \<notin> set mid" and "percent_paired mid" and "length pre + length mid \<le> PATH_MAX"
    and "length out + length (spec_expand mid hn p) < PATH_MAX"
  shows "expand_loop (pre @ mid @ suf) hn p (length pre)
           (out @ replicate (PATH_MAX + 1 - length out) NUL) (length out)
         = expand_loop (pre @ mid @ suf) hn p (length pre + length mid)
             ((out @ spec_expand mid hn p) @
                replicate (PATH_MAX + 1 - length (out @ spec_expand mid hn p)) NUL)
             (length (out @ spec_expand mid hn p))"
  using assms
proof (induction mid hn p arbitrary: pre out rule: spec_expand.induct)
  case (1 hn p)
  then show ?case by simp
next
  case (2 c hn p)
  have st: "store_bytes (out @ replicate (PATH_MAX + 1 - length out) NUL) (length out) [c]
            = Inr ((out @ [c]) @ replicate (PATH_MAX + 1 - length (out @ [c])) NUL)"
    by (rule store_dbuf) (use 2 in simp)
  show ?case
    using 2 expand_step_plain [OF cstr_at_mid _ _ _ st, of pre suf hn p]
    by simp
next
  case (3 c x r hn p)
  let ?env = "pre @ (c # x # r) @ suf"
  from 3 have nn: "c \<noteq> NUL" "x \<noteq> NUL" "NUL \<notin> set r" and lt: "length pre < PATH_MAX"
    and lt2: "length pre + 2 + length r \<le> PATH_MAX"
    by auto
  show ?case
  proof (cases "c \<noteq> CHR ''%''")
    case True
    have st: "store_bytes (out @ replicate (PATH_MAX + 1 - length out) NUL) (length out) [c]
              = Inr ((out @ [c]) @ replicate (PATH_MAX + 1 - length (out @ [c])) NUL)"
      by (rule store_dbuf) (use 3 True in simp)
    have s1: "expand_loop ?env hn p (length pre) (out @ replicate (PATH_MAX + 1 - length out) NUL) (length out)
          = expand_loop ?env hn p (length (pre @ [c]))
              ((out @ [c]) @ replicate (PATH_MAX + 1 - length (out @ [c])) NUL) (length (out @ [c]))"
      using expand_step_plain [OF _ nn(1) lt True st, of ?env hn p] cstr_at_mid [of pre c "x # r @ suf"]
      by simp
    have ih: "expand_loop ((pre @ [c]) @ (x # r) @ suf) hn p (length (pre @ [c]))
                ((out @ [c]) @ replicate (PATH_MAX + 1 - length (out @ [c])) NUL) (length (out @ [c]))
          = expand_loop ((pre @ [c]) @ (x # r) @ suf) hn p (length (pre @ [c]) + length (x # r))
              (((out @ [c]) @ spec_expand (x # r) hn p) @
                 replicate (PATH_MAX + 1 - length ((out @ [c]) @ spec_expand (x # r) hn p)) NUL)
              (length ((out @ [c]) @ spec_expand (x # r) hn p))"
      by (rule "3.IH"(1) [OF True]) (use 3 True nn in auto)
    show ?thesis
      using s1 ih True by simp
  next
    case False
    then have c: "c = CHR ''%''" by simp
    have rd: "cstr_at ?env (length pre) = Inr CHR ''%''"
      using cstr_at_mid [of pre c "x # r @ suf"] c by simp
    have rd1: "cstr_at ?env (length pre + 1) = Inr x"
      using cstr_at_mid1 [of pre c x "r @ suf"] by simp
    note step = expand_step_percent [OF rd lt rd1, of hn p]
    from 3 c have pr: "percent_paired r" by simp
    have env2: "(pre @ [c, x]) @ r @ suf = ?env" by simp
    show ?thesis
    proof (cases "x = CHR ''h''")
      case True
      have fit: "length out + length hn \<le> PATH_MAX" "length hn < PATH_MAX"
        using 3 c True by simp_all
      have ih: "expand_loop ((pre @ [c, x]) @ r @ suf) hn p (length (pre @ [c, x]))
                  ((out @ hn) @ replicate (PATH_MAX + 1 - length (out @ hn)) NUL) (length (out @ hn))
            = expand_loop ((pre @ [c, x]) @ r @ suf) hn p (length (pre @ [c, x]) + length r)
                (((out @ hn) @ spec_expand r hn p) @
                   replicate (PATH_MAX + 1 - length ((out @ hn) @ spec_expand r hn p)) NUL)
                (length ((out @ hn) @ spec_expand r hn p))"
        by (rule "3.IH"(2) [OF _ True]) (use 3 c True nn pr in auto)
      show ?thesis
        using step [of "out @ replicate (PATH_MAX + 1 - length out) NUL" "length out"]
          snprintf_dbuf [OF fit] ih c True
        by (simp add: env2 [simplified])
    next
      case nh: False
      show ?thesis
      proof (cases "x = CHR ''p''")
        case True
        have fit: "length out + length (dec_int p) \<le> PATH_MAX" "length (dec_int p) < PATH_MAX"
          using 3 c True by simp_all
        have ih: "expand_loop ((pre @ [c, x]) @ r @ suf) hn p (length (pre @ [c, x]))
                    ((out @ dec_int p) @ replicate (PATH_MAX + 1 - length (out @ dec_int p)) NUL)
                    (length (out @ dec_int p))
              = expand_loop ((pre @ [c, x]) @ r @ suf) hn p (length (pre @ [c, x]) + length r)
                  (((out @ dec_int p) @ spec_expand r hn p) @
                     replicate (PATH_MAX + 1 - length ((out @ dec_int p) @ spec_expand r hn p)) NUL)
                  (length ((out @ dec_int p) @ spec_expand r hn p))"
          by (rule "3.IH"(3) [OF _ nh True]) (use 3 c True nn pr in auto)
        show ?thesis
          using step [of "out @ replicate (PATH_MAX + 1 - length out) NUL" "length out"]
            snprintf_dbuf [OF fit] ih c True
          by (simp add: env2 [simplified])
      next
        case np: False
        show ?thesis
        proof (cases "x = CHR ''%''")
          case True
          have st: "store_bytes (out @ replicate (PATH_MAX + 1 - length out) NUL) (length out) [CHR ''%'']
                    = Inr ((out @ [CHR ''%'']) @ replicate (PATH_MAX + 1 - length (out @ [CHR ''%''])) NUL)"
            by (rule store_dbuf) (use 3 c True in simp)
          have ih: "expand_loop ((pre @ [c, x]) @ r @ suf) hn p (length (pre @ [c, x]))
                      ((out @ [CHR ''%'']) @ replicate (PATH_MAX + 1 - length (out @ [CHR ''%''])) NUL)
                      (length (out @ [CHR ''%'']))
                = expand_loop ((pre @ [c, x]) @ r @ suf) hn p (length (pre @ [c, x]) + length r)
                    (((out @ [CHR ''%'']) @ spec_expand r hn p) @
                       replicate (PATH_MAX + 1 - length ((out @ [CHR ''%'']) @ spec_expand r hn p)) NUL)
                    (length ((out @ [CHR ''%'']) @ spec_expand r hn p))"
            by (rule "3.IH"(4) [OF _ nh np True]) (use 3 c True nn pr in auto)
          show ?thesis
            using step [of "out @ replicate (PATH_MAX + 1 - length out) NUL" "length out"]
              st ih c True
            by (simp add: env2 [simplified])
        next
          case nq: False
          have st: "store_bytes (out @ replicate (PATH_MAX + 1 - length out) NUL) (length out) [CHR ''%'', x]
                    = Inr ((out @ [CHR ''%'', x]) @ replicate (PATH_MAX + 1 - length (out @ [CHR ''%'', x])) NUL)"
            by (rule store_dbuf) (use 3 c nh np nq in simp)
          have ih: "expand_loop ((pre @ [c, x]) @ r @ suf) hn p (length (pre @ [c, x]))
                      ((out @ [CHR ''%'', x]) @ replicate (PATH_MAX + 1 - length (out @ [CHR ''%'', x])) NUL)
                      (length (out @ [CHR ''%'', x]))
                = expand_loop ((pre @ [c, x]) @ r @ suf) hn p (length (pre @ [c, x]) + length r)
                    (((out @ [CHR ''%'', x]) @ spec_expand r hn p) @
                       replicate (PATH_MAX + 1 - length ((out @ [CHR ''%'', x]) @ spec_expand r hn p)) NUL)
                    (length ((out @ [CHR ''%'', x]) @ spec_expand r hn p))"
            by (rule "3.IH"(5) [OF _ nh np nq]) (use 3 c nh np nq nn pr in auto)
          show ?thesis
            using step [of "out @ replicate (PATH_MAX + 1 - length out) NUL" "length out"]
              st ih c nh np nq
            by (simp add: env2 [simplified])
        qed
      qed
    qed
  qed
qed

lemma digit_char_not_NUL: "d < 10 \<Longrightarrow> NUL \<noteq> digit_char d"
proof -
  assume "d < 10"
  then have "digit_char d \<in> set ''0123456789''"
    unfolding digit_char_def by (intro nth_mem) simp
  then show ?thesis by (auto simp: NUL_def)
qed

lemma dec_nat_no_NUL: "NUL \<notin> set (dec_nat n)"
proof (induction n rule: dec_nat.induct)
  case (1 n)
  show ?case
  proof (cases "n < 10")
    case True
    then show ?thesis by (subst dec_nat.simps) (simp add: digit_char_not_NUL)
  next
    case False
    then show ?thesis
      using 1 by (subst dec_nat.simps) (simp add: digit_char_not_NUL)
  qed
qed

lemma dec_int_no_NUL: "NUL \<notin> set (dec_int i)"
  by (simp add: dec_int_def dec_nat_no_NUL) (simp add: NUL_def)

lemma spec_expand_no_NUL:
  "NUL \<notin> set tmpl \<Longrightarrow> NUL \<notin> set hn \<Longrightarrow> NUL \<notin> set (spec_expand tmpl hn p)"
  by (induction tmpl hn p rule: spec_expand.induct)
     (auto simp: dec_int_no_NUL [unfolded NUL_def] NUL_def)

lemma expand_debug_file_grammar:
  assumes nt: "NUL \<notin> set tmpl" and nh: "NUL \<notin> set hn" and pp: "percent_paired tmpl"
    and lt: "length tmpl \<le> PATH_MAX" and le: "length (spec_expand tmpl hn p) < PATH_MAX"
  shows "expand_debug_file tmpl hn p = Inr (spec_expand tmpl hn p)"
proof -
  let ?E = "spec_expand tmpl hn p"
  let ?buf = "?E @ replicate (PATH_MAX + 1 - length ?E) NUL"
  have seg: "expand_loop tmpl hn p 0 (replicate (PATH_MAX + 1) NUL) 0
             = expand_loop tmpl hn p (length tmpl) ?buf (length ?E)"
    using expand_loop_segment [of tmpl "[]" "[]" hn p "[]"] nt pp lt le by simp
  have fin: "expand_loop tmpl hn p (length tmpl) ?buf (length ?E) = Inr (?buf, length ?E)"
    by (rule expand_step_end [OF cstr_at_end])
  have st: "store_bytes ?buf (length ?E) [NUL] = Inr ((?E @ [NUL]) @ replicate (PATH_MAX + 1 - length (?E @ [NUL])) NUL)"
    by (rule store_dbuf) (use le in simp)
  have "\<forall>x\<in>set ?E. x \<noteq> NUL"
    using spec_expand_no_NUL [OF nt nh, of p] by auto
  then have tw: "takeWhile (\<lambda>ch. ch \<noteq> NUL) ((?E @ [NUL]) @ replicate (PATH_MAX + 1 - length (?E @ [NUL])) NUL) = ?E"
    by simp
  show ?thesis
    by (simp only: expand_debug_file_def seg fin st tw sum.case prod.case)
qed

lemma plain_template:
  "c \<noteq> CHR ''%'' \<Longrightarrow> percent_paired (replicate n c) \<and> spec_expand (replicate n c) hn p = replicate n c"
proof (induction n)
  case 0
  then show ?case by simp
next
  case (Suc n)
  then show ?case by (cases n) auto
qed

lemma expand_debug_file_overflow:
  "expand_debug_file (replicate 4095 CHR ''a'' @ ''%q'') hn p = Inl (WriteOutOfBounds 4097)"
proof -
  let ?A = "replicate 4095 CHR ''a''"
  let ?env = "?A @ ''%q''"
  let ?buf1 = "?A @ replicate (PATH_MAX + 1 - length ?A) NUL"
  let ?buf2 = "(?A @ ''%q'') @ replicate (PATH_MAX + 1 - length (?A @ ''%q'')) NUL"
  have pl: "percent_paired ?A" "spec_expand ?A hn p = ?A"
    using plain_template [of "CHR ''a''" 4095 hn p] by simp_all
  have seg: "expand_loop ?env hn p 0 (replicate (PATH_MAX + 1) NUL) 0
             = expand_loop ?env hn p 4095 ?buf1 4095"
    using expand_loop_segment [of ?A "[]" "[]" hn p "''%q''"] pl
    by (simp add: NUL_def PATH_MAX_def)
  have rd: "cstr_at ?env 4095 = Inr CHR ''%''"
    using cstr_at_mid [of ?A "CHR ''%''" "''q''"] by simp
  have rd1: "cstr_at ?env (4095 + 1) = Inr CHR ''q''"
    using cstr_at_mid1 [of ?A "CHR ''%''" "CHR ''q''" "[]"] by simp
  have st: "store_bytes ?buf1 4095 ''%q'' = Inr ?buf2"
    using store_dbuf [of ?A "''%q''"] by (simp add: PATH_MAX_def)
  have step: "expand_loop ?env hn p 4095 ?buf1 4095 = expand_loop ?env hn p 4097 ?buf2 4097"
    using expand_step_percent [OF rd _ rd1, of hn p ?buf1 4095] st
    by (simp add: PATH_MAX_def)
  have fin: "expand_loop ?env hn p 4097 ?buf2 4097 = Inr (?buf2, 4097)"
    using expand_step_end [OF cstr_at_end, of ?env hn p ?buf2 4097] by simp
  have ovf: "store_bytes ?buf2 4097 [NUL] = Inl (WriteOutOfBounds 4097)"
    by (simp add: store_bytes_def PATH_MAX_def)
  show ?thesis
    by (simp only: expand_debug_file_def seg step fin ovf sum.case prod.case)
qed

lemmas expand_eval =
  expand_debug_file_def expand_loop.simps cstr_at_def store_bytes_def c_snprintf_def
  PATH_MAX_def NUL_def dec_eval

subsection \<open>The token loop against the spec's list\<close>

lemma subsys_mask_spec: "subsys_mask tok = spec_token_mask tok"
  by (simp add: subsys_mask_def spec_token_mask_def subsys_table_def)

lemma strcasecmp_eq_Nil: "strcasecmp_eq [] (c # cs) = False"
  by (simp add: strcasecmp_eq_def)

lemma subsys_mask_Nil: "subsys_mask [] = 0"
  by (simp add: subsys_mask_def strcasecmp_eq_Nil)

lemma split_commas_no_comma:
  "CHR '','' \<notin> set s \<Longrightarrow> split_commas s = [s]"
  by (induction s) auto

lemma split_commas_at_comma:
  "CHR '','' \<notin> set tok \<Longrightarrow> split_commas (tok @ CHR '','' # r) = tok # split_commas r"
  by (induction tok) auto

lemma subsys_loop_Nil: "subsys_loop invert [] m = m"
  by (subst subsys_loop.simps) (simp add: strtok_comma_def)

lemma subsys_loop_skip_comma: "subsys_loop invert (CHR '','' # r) m = subsys_loop invert r m"
  by (subst subsys_loop.simps, subst (2) subsys_loop.simps) (simp add: strtok_comma_def)

lemma strtok_comma_token:
  assumes "tok \<noteq> []" and "CHR '','' \<notin> set tok"
  shows "strtok_comma tok = Some (tok, [])"
    and "strtok_comma (tok @ CHR '','' # r) = Some (tok, r)"
proof -
  obtain c cs where t: "tok = c # cs" and c: "c \<noteq> CHR '',''"
    using assms by (cases tok) auto
  have tw: "takeWhile (\<lambda>c. c \<noteq> CHR '','') tok = tok" "dropWhile (\<lambda>c. c \<noteq> CHR '','') tok = []"
    using assms(2) by (auto simp: takeWhile_eq_all_conv)
  have tw2: "takeWhile (\<lambda>c. c \<noteq> CHR '','') (tok @ CHR '','' # r) = tok"
    "dropWhile (\<lambda>c. c \<noteq> CHR '','') (tok @ CHR '','' # r) = CHR '','' # r"
    using assms(2) by (induction tok) auto
  have d1: "dropWhile (\<lambda>c. c = CHR '','') tok = tok"
    "dropWhile (\<lambda>c. c = CHR '','') (tok @ CHR '','' # r) = tok @ CHR '','' # r"
    using t c by simp_all
  show "strtok_comma tok = Some (tok, [])"
    using assms(1) by (simp add: strtok_comma_def d1 tw)
  show "strtok_comma (tok @ CHR '','' # r) = Some (tok, r)"
    using assms(1) by (simp add: strtok_comma_def d1 tw2)
qed

lemma loop_update_spec:
  "(if subsys_mask tok \<noteq> 0
    then (if invert then m AND NOT (subsys_mask tok) else m OR subsys_mask tok) else m)
   = spec_step invert tok m"
  by (simp add: spec_step_def subsys_mask_spec)

lemma subsys_loop_refines:
  "subsys_loop invert s m = fold (spec_step invert) (split_commas s) m"
proof (induction s arbitrary: m rule: length_induct)
  case (1 s)
  define tok where "tok = takeWhile (\<lambda>c. c \<noteq> CHR '','') s"
  define d where "d = dropWhile (\<lambda>c. c \<noteq> CHR '','') s"
  have s: "s = tok @ d" and nc: "CHR '','' \<notin> set tok"
    by (auto simp: tok_def d_def dest: set_takeWhileD)
  have step0: "spec_step invert [] m' = m'" for m'
    by (simp add: spec_step_def subsys_mask_spec [symmetric] subsys_mask_Nil)
  show ?case
  proof (cases d)
    case Nil
    then have st: "s = tok" using s by simp
    show ?thesis
    proof (cases "tok = []")
      case True
      then show ?thesis using st by (simp add: subsys_loop_Nil step0)
    next
      case False
      have "subsys_loop invert tok m = subsys_loop invert [] (spec_step invert tok m)"
        by (subst subsys_loop.simps)
           (simp add: strtok_comma_token(1) [OF False nc] Let_def loop_update_spec)
      then show ?thesis
        using st nc by (simp add: subsys_loop_Nil split_commas_no_comma)
    qed
  next
    case (Cons c r)
    then have c: "c = CHR '',''"
      using hd_dropWhile [of "\<lambda>c. c \<noteq> CHR '',''" s] by (simp add: d_def)
    have st: "s = tok @ CHR '','' # r" using s Cons c by simp
    have ih: "subsys_loop invert r m' = fold (spec_step invert) (split_commas r) m'" for m'
      using 1 st by simp
    show ?thesis
    proof (cases "tok = []")
      case True
      then show ?thesis
        using st by (simp add: subsys_loop_skip_comma ih step0)
    next
      case False
      have "subsys_loop invert (tok @ CHR '','' # r) m = subsys_loop invert r (spec_step invert tok m)"
        by (subst subsys_loop.simps)
           (simp add: strtok_comma_token(2) [OF False nc] Let_def loop_update_spec)
      then show ?thesis
        using st nc by (simp add: ih split_commas_at_comma)
    qed
  qed
qed

lemma parse_subsys_refines: "parse_subsys e = spec_parse_subsys e"
  by (simp add: parse_subsys_def spec_parse_subsys_def subsys_loop_refines split: list.splits)

lemmas subsys_eval =
  parse_subsys_def subsys_loop.simps strtok_comma_def subsys_mask_def str_eval

subsection \<open>C1: the eligibility filter\<close>

text \<open>
  C1. After initialisation, a call whose record (level and flags after the per-thread
  override) has a level above the configured one, or flags that do not meet the
  configured mask, returns without handing anything to \<open>fwrite\<close>. With the configured
  level INFO and a flag in the mask, a WARN record is written (one block: the prefix,
  the message cut to the buffer, a newline; stated where the line assembly stays in
  the buffer) and a TRACE record is dropped.
\<close>

theorem C1_eligibility_filter:
  assumes init: "ncclDebugLevel s \<noteq> -1"
  shows
    "(\<forall>level' flags'.
        apply_no_warn t level flags = (level', flags') \<and>
        (ncclDebugLevel s < level_val level' \<or> flags' AND ncclDebugMask s = 0) \<longrightarrow>
        (\<exists>s'. ncclDebugLog sys level flags ff ln msg (s, t) = Inr (s', t) \<and>
              fwrites s' = fwrites s)) \<and>
     (ncclDebugLevel s = level_val NCCL_LOG_INFO \<and> ncclDebugNoWarn t = 0 \<and>
      flags AND ncclDebugMask s \<noteq> 0 \<and>
      length (prefix_level ''WARN'' sys s ff ln) \<le> 2048 \<and>
      length (prefix_level ''WARN'' sys s ff ln) + length msg \<noteq> 2048 \<and>
      length msg < 2 ^ 31 \<longrightarrow>
        (\<exists>s' t'. ncclDebugLog sys NCCL_LOG_WARN flags ff ln msg (s, t) = Inr (s', t') \<and>
           fwrites s' = fwrites s @
             [(ncclDebugFile s, take 2047 (prefix_level ''WARN'' sys s ff ln @ msg) @ [CHR 0x0A])])) \<and>
     (ncclDebugLevel s = level_val NCCL_LOG_INFO \<longrightarrow>
        (\<exists>s'. ncclDebugLog sys NCCL_LOG_TRACE flags ff ln msg (s, t) = Inr (s', t) \<and>
              fwrites s' = fwrites s))"
proof (intro conjI allI impI)
  fix level' flags'
  assume a: "apply_no_warn t level flags = (level', flags') \<and>
        (ncclDebugLevel s < level_val level' \<or> flags' AND ncclDebugMask s = 0)"
  then have "filter_and_emit sys level' flags' ff ln msg (save_last_error level' msg s, t)
             = Inr (save_last_error level' msg s, t)"
    by (intro filter_and_emit_dropped) simp
  with a show "\<exists>s'. ncclDebugLog sys level flags ff ln msg (s, t) = Inr (s', t) \<and>
              fwrites s' = fwrites s"
    by (simp add: ncclDebugLog_initialised [OF init])
next
  let ?pre = "prefix_level ''WARN'' sys s ff ln"
  let ?s1 = "save_last_error NCCL_LOG_WARN msg s"
  assume a: "ncclDebugLevel s = level_val NCCL_LOG_INFO \<and> ncclDebugNoWarn t = 0 \<and>
      flags AND ncclDebugMask s \<noteq> 0 \<and> length ?pre \<le> 2048 \<and>
      length ?pre + length msg \<noteq> 2048 \<and> length msg < 2 ^ 31"
  have ov: "apply_no_warn t NCCL_LOG_WARN flags = (NCCL_LOG_WARN, flags)"
    using a by (simp add: apply_no_warn_def)
  have pass: "\<not> (ncclDebugLevel ?s1 < level_val NCCL_LOG_WARN \<or> flags AND ncclDebugMask ?s1 = 0)"
    using a by simp
  have pre: "select_prefix sys ?s1 NCCL_LOG_WARN flags ff ln = Some ?pre"
    by (simp add: select_prefix_def)
  have asm: "assemble_line ?pre msg = Inr (Some (take 2047 (?pre @ msg) @ [CHR 0x0A]))"
    using a by (intro assemble_line_ok prefix_level_nonempty) simp_all
  show "\<exists>s' t'. ncclDebugLog sys NCCL_LOG_WARN flags ff ln msg (s, t) = Inr (s', t') \<and>
           fwrites s' = fwrites s @ [(ncclDebugFile s, take 2047 (?pre @ msg) @ [CHR 0x0A])]"
    using filter_and_emit_line [OF pass pre asm, of t]
    by (simp add: ncclDebugLog_initialised [OF init] ov)
next
  assume a: "ncclDebugLevel s = level_val NCCL_LOG_INFO"
  have ov: "apply_no_warn t NCCL_LOG_TRACE flags = (NCCL_LOG_TRACE, flags)"
    by (simp add: apply_no_warn_def)
  have se: "save_last_error NCCL_LOG_TRACE msg s = s"
    by (simp add: save_last_error_def)
  have "filter_and_emit sys NCCL_LOG_TRACE flags ff ln msg (s, t) = Inr (s, t)"
    using a by (intro filter_and_emit_dropped) simp
  then show "\<exists>s'. ncclDebugLog sys NCCL_LOG_TRACE flags ff ln msg (s, t) = Inr (s', t) \<and>
              fwrites s' = fwrites s"
    by (simp add: ncclDebugLog_initialised [OF init] ov se)
qed

text \<open>
  The claim's example: configured level INFO, flag INIT in the default mask.
\<close>

theorem C1_witness:
  "ncclDebugLevel example_state \<noteq> -1 \<and>
   ncclDebugLevel example_state = level_val NCCL_LOG_INFO \<and>
   ncclDebugNoWarn initial_thread = 0 \<and>
   NCCL_INIT AND ncclDebugMask example_state \<noteq> 0 \<and>
   (\<exists>s' t'. ncclDebugLog example_sys NCCL_LOG_WARN NCCL_INIT ''init.cc'' 7 ''boom''
               (example_state, initial_thread) = Inr (s', t') \<and>
      fwrites s' =
        [(Stdout, ''[?/?][2024-01-01 00:00:00,000] [init.cc:7] [h1:pid=42] NCCL WARN boom'' @ [CHR 0x0A])]) \<and>
   (\<exists>s'. ncclDebugLog example_sys NCCL_LOG_TRACE NCCL_INIT ''init.cc'' 7 ''boom''
               (example_state, initial_thread) = Inr (s', initial_thread) \<and>
      fwrites s' = [])"
proof -
  have i: "ncclDebugLevel example_state \<noteq> -1"
    by (simp add: example_state_def)
  show ?thesis
    using C1_eligibility_filter [OF i, where t = initial_thread and level = NCCL_LOG_WARN
        and flags = NCCL_INIT and sys = example_sys and ff = "''init.cc''" and ln = 7
        and msg = "''boom''"]
    by (simp add: example_prefix_warn)
       (simp add: example_state_def initial_state_def initial_thread_def NCCL_INIT_def NCCL_ENV_def)
qed

subsection \<open>C2: the level name\<close>

text \<open>
  C2. With \<open>NCCL_DEBUG\<close> absent, \<open>ncclDebugInit\<close> stores \<open>NCCL_LOG_NONE\<close> and the
  sentinel \<open>-1\<close> is replaced. With \<open>NCCL_DEBUG\<close> present and equal to none of
  VERSION, WARN, INFO, ABORT, TRACE (letter case ignored), no branch of lines 66 to
  78 assigns \<open>tempNcclDebugLevel\<close>: line 179 stores \<open>-1\<close>, so the level is not
  \<open>NCCL_LOG_NONE\<close> and the sentinel stays in place.
\<close>

theorem C2_unmatched_level_name_keeps_sentinel:
  assumes un: "ncclDebugLevel s = -1"
  shows
    "(env_NCCL_DEBUG sys = None \<longrightarrow>
        (\<exists>s'. ncclDebugInit sys s = Inr s' \<and> ncclDebugLevel s' = level_val NCCL_LOG_NONE \<and>
              ncclDebugLevel s' \<noteq> -1)) \<and>
     (\<forall>d. env_NCCL_DEBUG sys = Some d \<and>
          \<not> strcasecmp_eq d ''VERSION'' \<and> \<not> strcasecmp_eq d ''WARN'' \<and>
          \<not> strcasecmp_eq d ''INFO'' \<and> \<not> strcasecmp_eq d ''ABORT'' \<and>
          \<not> strcasecmp_eq d ''TRACE'' \<longrightarrow>
        (\<exists>s'. ncclDebugInit sys s = Inr s' \<and> ncclDebugLevel s' = -1 \<and>
              ncclDebugLevel s' \<noteq> level_val NCCL_LOG_NONE))"
  using un by (auto simp: ncclDebugInit_def parse_level_def Let_def)

text \<open>The failing input: \<open>NCCL_DEBUG=DEBUG\<close> on the initial state.\<close>

theorem C2_witness:
  "ncclDebugLevel initial_state = -1 \<and>
   env_NCCL_DEBUG (example_sys\<lparr>env_NCCL_DEBUG := Some ''DEBUG''\<rparr>) = Some ''DEBUG'' \<and>
   \<not> strcasecmp_eq ''DEBUG'' ''VERSION'' \<and> \<not> strcasecmp_eq ''DEBUG'' ''WARN'' \<and>
   \<not> strcasecmp_eq ''DEBUG'' ''INFO'' \<and> \<not> strcasecmp_eq ''DEBUG'' ''ABORT'' \<and>
   \<not> strcasecmp_eq ''DEBUG'' ''TRACE'' \<and>
   (\<exists>s'. ncclDebugInit (example_sys\<lparr>env_NCCL_DEBUG := Some ''DEBUG''\<rparr>) initial_state = Inr s' \<and>
         ncclDebugLevel s' = -1 \<and> ncclDebugLevel s' \<noteq> level_val NCCL_LOG_NONE)"
proof -
  have i: "ncclDebugLevel initial_state = -1"
    by (simp add: initial_state_def)
  have n: "\<not> strcasecmp_eq ''DEBUG'' ''VERSION''" "\<not> strcasecmp_eq ''DEBUG'' ''WARN''"
    "\<not> strcasecmp_eq ''DEBUG'' ''INFO''" "\<not> strcasecmp_eq ''DEBUG'' ''ABORT''"
    "\<not> strcasecmp_eq ''DEBUG'' ''TRACE''"
    by (simp_all add: str_eval)
  show ?thesis
    using C2_unmatched_level_name_keeps_sentinel
      [OF i, where sys = "example_sys\<lparr>env_NCCL_DEBUG := Some ''DEBUG''\<rparr>"]
    by (simp add: i n)
qed

subsection \<open>C3: the line buffer\<close>

text \<open>
  C3. When the prefix and the message together are exactly 2048 bytes long, the
  test \<open>len > sizeof(buffer)\<close> of line 257 is false, \<open>len\<close> is not rewound, and line
  258 stores the newline at \<open>buffer[2048]\<close>, one past the end of the buffer: an INFO
  call that passes the filter with such a message ends in that out-of-bounds store.
  (\<open>assemble_line_ok\<close> shows that every other total length leaves the line within
  the buffer as long as the prefix itself is at most 2048 bytes;
  \<open>assemble_line_long_prefix\<close> is the case of a longer prefix.)
\<close>

theorem C3_newline_stored_past_buffer:
  assumes init: "ncclDebugLevel s \<noteq> -1"
    and lvl: "level_val NCCL_LOG_INFO \<le> ncclDebugLevel s"
    and msk: "flags AND ncclDebugMask s \<noteq> 0"
    and len: "length (prefix_level ''INFO'' sys s ff ln) + length msg = 2048"
  shows "ncclDebugLog sys NCCL_LOG_INFO flags ff ln msg (s, t) = Inl (WriteOutOfBounds 2048)"
proof -
  let ?pre = "prefix_level ''INFO'' sys s ff ln"
  have ov: "apply_no_warn t NCCL_LOG_INFO flags = (NCCL_LOG_INFO, flags)"
    by (simp add: apply_no_warn_def)
  have se: "save_last_error NCCL_LOG_INFO msg s = s"
    by (simp add: save_last_error_def)
  have pass: "\<not> (ncclDebugLevel s < level_val NCCL_LOG_INFO \<or> flags AND ncclDebugMask s = 0)"
    using lvl msk by simp
  have pre: "select_prefix sys s NCCL_LOG_INFO flags ff ln = Some ?pre"
    by (simp add: select_prefix_def)
  have asm: "assemble_line ?pre msg = Inl (WriteOutOfBounds 2048)"
    by (rule assemble_line_off_by_one [OF prefix_level_nonempty len])
  show ?thesis
    using filter_and_emit_fault [OF pass pre asm, of t]
    by (simp add: ncclDebugLog_initialised [OF init] ov se)
qed

text \<open>
  The failing input: the 65-byte prefix of an INFO call from \<open>init.cc:7\<close> on host
  \<open>h1\<close>, process 42, and a message of 1983 bytes.
\<close>

theorem C3_witness:
  "ncclDebugLevel example_state \<noteq> -1 \<and>
   level_val NCCL_LOG_INFO \<le> ncclDebugLevel example_state \<and>
   NCCL_INIT AND ncclDebugMask example_state \<noteq> 0 \<and>
   length (prefix_level ''INFO'' example_sys example_state ''init.cc'' 7) = 65 \<and>
   length (replicate 1983 CHR ''x'') = 1983 \<and>
   ncclDebugLog example_sys NCCL_LOG_INFO NCCL_INIT ''init.cc'' 7 (replicate 1983 CHR ''x'')
     (example_state, initial_thread) = Inl (WriteOutOfBounds 2048)"
proof -
  have i: "ncclDebugLevel example_state \<noteq> -1"
    and l: "level_val NCCL_LOG_INFO \<le> ncclDebugLevel example_state"
    and m: "NCCL_INIT AND ncclDebugMask example_state \<noteq> 0"
    by (simp_all add: example_state_def initial_state_def NCCL_INIT_def NCCL_ENV_def)
  have p: "length (prefix_level ''INFO'' example_sys example_state ''init.cc'' 7) = 65"
    by (simp add: example_prefix_info)
  have n: "length (prefix_level ''INFO'' example_sys example_state ''init.cc'' 7)
           + length (replicate 1983 CHR ''x'') = 2048"
    by (simp add: p)
  show ?thesis
    using C3_newline_stored_past_buffer [OF i l m n, of initial_thread] i l m p
    by simp
qed

subsection \<open>C4: a warning is recorded before it is filtered\<close>

text \<open>
  C4. On a thread whose override flag is unset, a WARN call first stores its
  formatted message in \<open>ncclLastError\<close> (as \<open>vsnprintf\<close> stores it in the 1024-byte
  buffer: the first 1023 bytes, the whole message when it is shorter) and only then
  runs the filter: the call is the filter-and-emit step applied to the state with the
  new last-error text. Every returning call leaves that text in place, and a call
  whose flags miss the configured mask returns with the text updated and nothing
  handed to \<open>fwrite\<close>.
\<close>

theorem C4_warn_saves_last_error_before_filter:
  assumes li: "lazy_init sys s = Inr s0" and nw: "ncclDebugNoWarn t = 0"
  shows
    "ncclDebugLog sys NCCL_LOG_WARN flags ff ln msg (s, t) =
       filter_and_emit sys NCCL_LOG_WARN flags ff ln msg (s0\<lparr>ncclLastError := take 1023 msg\<rparr>, t) \<and>
     (\<forall>s' t'. ncclDebugLog sys NCCL_LOG_WARN flags ff ln msg (s, t) = Inr (s', t') \<longrightarrow>
        ncclLastError s' = take 1023 msg) \<and>
     (flags AND ncclDebugMask s0 = 0 \<longrightarrow>
        (\<exists>s'. ncclDebugLog sys NCCL_LOG_WARN flags ff ln msg (s, t) = Inr (s', t) \<and>
           ncclLastError s' = take 1023 msg \<and> fwrites s' = fwrites s)) \<and>
     (length msg \<le> 1023 \<longrightarrow> take 1023 msg = msg)"
proof -
  have ov: "apply_no_warn t NCCL_LOG_WARN flags = (NCCL_LOG_WARN, flags)"
    using nw by (simp add: apply_no_warn_def)
  have se: "save_last_error NCCL_LOG_WARN msg s0 = s0\<lparr>ncclLastError := take 1023 msg\<rparr>"
    by (simp add: save_last_error_def)
  have eq: "ncclDebugLog sys NCCL_LOG_WARN flags ff ln msg (s, t) =
       filter_and_emit sys NCCL_LOG_WARN flags ff ln msg (s0\<lparr>ncclLastError := take 1023 msg\<rparr>, t)"
    by (simp add: ncclDebugLog_after_init [OF li] ov se)
  have a: "\<forall>s' t'. ncclDebugLog sys NCCL_LOG_WARN flags ff ln msg (s, t) = Inr (s', t') \<longrightarrow>
        ncclLastError s' = take 1023 msg"
    unfolding eq by (auto dest: filter_and_emit_last_error)
  have b: "flags AND ncclDebugMask s0 = 0 \<longrightarrow>
        (\<exists>s'. ncclDebugLog sys NCCL_LOG_WARN flags ff ln msg (s, t) = Inr (s', t) \<and>
           ncclLastError s' = take 1023 msg \<and> fwrites s' = fwrites s)"
  proof
    assume z: "flags AND ncclDebugMask s0 = 0"
    have "filter_and_emit sys NCCL_LOG_WARN flags ff ln msg (s0\<lparr>ncclLastError := take 1023 msg\<rparr>, t)
          = Inr (s0\<lparr>ncclLastError := take 1023 msg\<rparr>, t)"
      by (rule filter_and_emit_dropped) (simp add: z)
    then show "\<exists>s'. ncclDebugLog sys NCCL_LOG_WARN flags ff ln msg (s, t) = Inr (s', t) \<and>
           ncclLastError s' = take 1023 msg \<and> fwrites s' = fwrites s"
      unfolding eq using lazy_init_fwrites [OF li] by simp
  qed
  show ?thesis
    using eq a b by simp
qed

text \<open>A WARN call with flag COLL, which the default mask INIT, ENV excludes.\<close>

theorem C4_witness:
  "lazy_init example_sys example_state = Inr example_state \<and>
   ncclDebugNoWarn initial_thread = 0 \<and>
   NCCL_COLL AND ncclDebugMask example_state = 0 \<and>
   (\<exists>s'. ncclDebugLog example_sys NCCL_LOG_WARN NCCL_COLL ''coll.cc'' 9 ''ring broken''
            (example_state, initial_thread) = Inr (s', initial_thread) \<and>
         ncclLastError s' = ''ring broken'' \<and> fwrites s' = [])"
proof -
  have li: "lazy_init example_sys example_state = Inr example_state"
    by (simp add: lazy_init_def example_state_def)
  have nw: "ncclDebugNoWarn initial_thread = 0"
    by (simp add: initial_thread_def)
  have z: "NCCL_COLL AND ncclDebugMask example_state = 0"
    by (simp add: example_state_def initial_state_def subsys_defs)
  have f: "fwrites example_state = []"
    by (simp add: example_state_def initial_state_def)
  show ?thesis
    using C4_warn_saves_last_error_before_filter
      [OF li nw, where flags = NCCL_COLL and ff = "''coll.cc''" and ln = 9 and msg = "''ring broken''",
       THEN conjunct2, THEN conjunct2, THEN conjunct1]
      li nw z f
    by simp
qed

subsection \<open>C5: which WARN calls reach the last-error text\<close>

text \<open>
  C5, as stated, fails on a thread whose override flag \<open>ncclDebugNoWarn\<close> is set:
  line 208 rewrites the WARN call to INFO before line 211 tests for WARN, so the
  last-error text keeps its old value. Here the override flag is COLL, which the
  default mask excludes: the call returns the state unchanged.
\<close>

theorem C5_counterexample:
  "ncclDebugLog example_sys NCCL_LOG_WARN NCCL_INIT ''coll.cc'' 9 ''new warning''
     (example_state\<lparr>ncclLastError := ''old warning''\<rparr>, \<lparr>ncclDebugNoWarn = 2, tid = 43\<rparr>)
   = Inr (example_state\<lparr>ncclLastError := ''old warning''\<rparr>, \<lparr>ncclDebugNoWarn = 2, tid = 43\<rparr>) \<and>
   ncclLastError (example_state\<lparr>ncclLastError := ''old warning''\<rparr>) \<noteq> ''new warning''"
  by (simp add: ncclDebugLog_def lazy_init_def apply_no_warn_def save_last_error_def
        filter_and_emit_def example_state_def initial_state_def subsys_defs)

text \<open>
  C5, amended. After a returning call \<open>log(WARN, ...)\<close> the last-error text is the
  call's formatted message (its first 1023 bytes, as the 1024-byte buffer holds it)
  when the calling thread's override flag is unset, and is unchanged when the flag is
  set; this holds whether the record is emitted or filtered out, and a filtered-out
  call always returns.
\<close>

theorem C5_last_error_of_warn_calls:
  assumes li: "lazy_init sys s = Inr s0"
  shows
    "(\<forall>s' t'. ncclDebugLog sys NCCL_LOG_WARN flags ff ln msg (s, t) = Inr (s', t') \<longrightarrow>
        ncclLastError s' = (if ncclDebugNoWarn t = 0 then take 1023 msg else ncclLastError s)) \<and>
     (\<forall>level' flags'.
        apply_no_warn t NCCL_LOG_WARN flags = (level', flags') \<and>
        (ncclDebugLevel s0 < level_val level' \<or> flags' AND ncclDebugMask s0 = 0) \<longrightarrow>
        (\<exists>s'. ncclDebugLog sys NCCL_LOG_WARN flags ff ln msg (s, t) = Inr (s', t) \<and>
           ncclLastError s' = (if ncclDebugNoWarn t = 0 then take 1023 msg else ncclLastError s)))"
proof (intro conjI allI impI)
  fix s' t'
  assume r: "ncclDebugLog sys NCCL_LOG_WARN flags ff ln msg (s, t) = Inr (s', t')"
  show "ncclLastError s' = (if ncclDebugNoWarn t = 0 then take 1023 msg else ncclLastError s)"
  proof (cases "ncclDebugNoWarn t = 0")
    case True
    then have "filter_and_emit sys NCCL_LOG_WARN flags ff ln msg
                 (save_last_error NCCL_LOG_WARN msg s0, t) = Inr (s', t')"
      using r by (simp add: ncclDebugLog_after_init [OF li] apply_no_warn_def)
    from filter_and_emit_last_error [OF this] True show ?thesis
      by (simp add: save_last_error_def)
  next
    case False
    then have "filter_and_emit sys NCCL_LOG_INFO (word_of_int (ncclDebugNoWarn t)) ff ln msg
                 (save_last_error NCCL_LOG_INFO msg s0, t) = Inr (s', t')"
      using r by (simp add: ncclDebugLog_after_init [OF li] apply_no_warn_def)
    from filter_and_emit_last_error [OF this] False show ?thesis
      by (simp add: save_last_error_def lazy_init_last_error [OF li])
  qed
next
  fix level' flags'
  assume a: "apply_no_warn t NCCL_LOG_WARN flags = (level', flags') \<and>
        (ncclDebugLevel s0 < level_val level' \<or> flags' AND ncclDebugMask s0 = 0)"
  then have d: "filter_and_emit sys level' flags' ff ln msg (save_last_error level' msg s0, t)
             = Inr (save_last_error level' msg s0, t)"
    by (intro filter_and_emit_dropped) simp
  have "ncclLastError (save_last_error level' msg s0)
         = (if ncclDebugNoWarn t = 0 then take 1023 msg else ncclLastError s)"
    using a by (auto simp: apply_no_warn_def save_last_error_def lazy_init_last_error [OF li]
                     split: if_splits)
  with a d show "\<exists>s'. ncclDebugLog sys NCCL_LOG_WARN flags ff ln msg (s, t) = Inr (s', t) \<and>
           ncclLastError s' = (if ncclDebugNoWarn t = 0 then take 1023 msg else ncclLastError s)"
    by (simp add: ncclDebugLog_after_init [OF li])
qed

theorem C5_witness:
  "lazy_init example_sys example_state = Inr example_state \<and>
   apply_no_warn initial_thread NCCL_LOG_WARN NCCL_COLL = (NCCL_LOG_WARN, NCCL_COLL) \<and>
   NCCL_COLL AND ncclDebugMask example_state = 0 \<and>
   (\<exists>s'. ncclDebugLog example_sys NCCL_LOG_WARN NCCL_COLL ''coll.cc'' 9 ''ring broken''
            (example_state, initial_thread) = Inr (s', initial_thread) \<and>
         ncclLastError s' = ''ring broken'')"
proof -
  have li: "lazy_init example_sys example_state = Inr example_state"
    by (simp add: lazy_init_def example_state_def)
  have ov: "apply_no_warn initial_thread NCCL_LOG_WARN NCCL_COLL = (NCCL_LOG_WARN, NCCL_COLL)"
    by (simp add: apply_no_warn_def initial_thread_def)
  have z: "NCCL_COLL AND ncclDebugMask example_state = 0"
    by (simp add: example_state_def initial_state_def subsys_defs)
  have nw: "ncclDebugNoWarn initial_thread = 0"
    by (simp add: initial_thread_def)
  show ?thesis
    using C5_last_error_of_warn_calls
      [OF li, where flags = NCCL_COLL and ff = "''coll.cc''" and ln = 9 and msg = "''ring broken''"
         and t = initial_thread]
      li ov z nw
    by auto
qed

subsection \<open>C6: the subsystem list\<close>

text \<open>
  C6. For every list, the mask that the token loop of lines 85 to 129 computes is
  the one the spec describes: the pieces between commas, matched without regard to
  letter case, added to the empty set, or, after a leading \<open>^\<close>, removed from the
  full set; an unknown token changes nothing. \<open>INIT,COLL\<close> gives INIT with COLL,
  \<open>^INIT\<close> gives ALL without INIT, \<open>BOGUS\<close> sets no bit and \<open>^BOGUS\<close> removes none.
  When the list is present, the mask after \<open>ncclDebugInit\<close> is the parsed one,
  whatever the mask was before.
\<close>

theorem C6_subsystem_list:
  "parse_subsys e = spec_parse_subsys e \<and>
   parse_subsys ''INIT,COLL'' = NCCL_INIT OR NCCL_COLL \<and>
   parse_subsys ''init,Coll'' = NCCL_INIT OR NCCL_COLL \<and>
   parse_subsys ''^INIT'' = NCCL_ALL AND NOT NCCL_INIT \<and>
   parse_subsys ''BOGUS'' = 0 \<and>
   parse_subsys ''INIT,BOGUS'' = NCCL_INIT \<and>
   parse_subsys ''^BOGUS'' = NCCL_ALL \<and>
   (\<forall>s'. ncclDebugLevel s = -1 \<and> env_NCCL_DEBUG_SUBSYS sys = Some e \<and>
         ncclDebugInit sys s = Inr s' \<longrightarrow> ncclDebugMask s' = parse_subsys e)"
proof -
  have e1: "parse_subsys ''INIT,COLL'' = NCCL_INIT OR NCCL_COLL"
    by (simp add: subsys_eval NCCL_INIT_def NCCL_COLL_def)
  have e2: "parse_subsys ''init,Coll'' = NCCL_INIT OR NCCL_COLL"
    by (simp add: subsys_eval NCCL_INIT_def NCCL_COLL_def)
  have e3: "parse_subsys ''^INIT'' = NCCL_ALL AND NOT NCCL_INIT"
    by (simp add: subsys_eval NCCL_INIT_def NCCL_ALL_def)
  have e4: "parse_subsys ''BOGUS'' = 0"
    by (simp add: subsys_eval)
  have e5: "parse_subsys ''INIT,BOGUS'' = NCCL_INIT"
    by (simp add: subsys_eval NCCL_INIT_def)
  have e6: "parse_subsys ''^BOGUS'' = NCCL_ALL"
    by (simp add: subsys_eval NCCL_ALL_def)
  have i: "\<forall>s'. ncclDebugLevel s = -1 \<and> env_NCCL_DEBUG_SUBSYS sys = Some e \<and>
         ncclDebugInit sys s = Inr s' \<longrightarrow> ncclDebugMask s' = parse_subsys e"
    by (auto simp: ncclDebugInit_def open_debug_file_def Let_def
             split: if_splits option.splits sum.splits)
  show ?thesis
    using e1 e2 e3 e4 e5 e6 i by (simp add: parse_subsys_refines)
qed

text \<open>
  The default mask INIT, ENV is replaced by INIT, COLL when \<open>NCCL_DEBUG_SUBSYS\<close> is
  \<open>INIT,COLL\<close>.
\<close>

theorem C6_witness:
  "ncclDebugLevel initial_state = -1 \<and>
   ncclDebugMask initial_state = NCCL_INIT OR NCCL_ENV \<and>
   env_NCCL_DEBUG_SUBSYS (example_sys\<lparr>env_NCCL_DEBUG_SUBSYS := Some ''INIT,COLL''\<rparr>) = Some ''INIT,COLL'' \<and>
   (\<exists>s'. ncclDebugInit (example_sys\<lparr>env_NCCL_DEBUG_SUBSYS := Some ''INIT,COLL''\<rparr>) initial_state = Inr s' \<and>
         ncclDebugMask s' = NCCL_INIT OR NCCL_COLL)"
proof -
  let ?sys = "example_sys\<lparr>env_NCCL_DEBUG_SUBSYS := Some ''INIT,COLL''\<rparr>"
  have lv: "parse_level (Some ''INFO'') = 3"
    by (simp add: parse_level_def str_eval)
  obtain s' where r: "ncclDebugInit ?sys initial_state = Inr s'"
    by (simp add: ncclDebugInit_def example_sys_def initial_state_def lv Let_def)
  have i: "ncclDebugLevel initial_state = -1" "ncclDebugMask initial_state = NCCL_INIT OR NCCL_ENV"
    by (simp_all add: initial_state_def)
  have "ncclDebugMask s' = parse_subsys ''INIT,COLL''"
    using C6_subsystem_list [where s = initial_state and sys = ?sys and e = "''INIT,COLL''",
        THEN conjunct2, THEN conjunct2, THEN conjunct2, THEN conjunct2, THEN conjunct2,
        THEN conjunct2, THEN conjunct2] i r
    by simp
  moreover have "parse_subsys ''INIT,COLL'' = NCCL_INIT OR NCCL_COLL"
    using C6_subsystem_list [where e = "''INIT,COLL''", THEN conjunct2, THEN conjunct1] .
  ultimately show ?thesis
    using i r by simp
qed

subsection \<open>C7: the template grammar\<close>

text \<open>
  C7. For a template that is a C string of at most \<open>PATH_MAX\<close> bytes, does not end in
  an unpaired \<open>%\<close>, and whose expansion is shorter than \<open>PATH_MAX\<close>, the path
  \<open>ncclDebugInit\<close> builds is the expansion by the spec's grammar: \<open>%h\<close> the hostname,
  \<open>%p\<close> the process id, \<open>%%\<close> a \<open>%\<close>, any other \<open>%X\<close> both characters, every other
  character itself. \<open>log.%h.%p\<close> with hostname \<open>h1\<close> and pid 42 gives \<open>log.h1.42\<close>,
  \<open>100%%done\<close> gives \<open>100%done\<close>, \<open>%q\<close> gives \<open>%q\<close>; and \<open>ncclDebugInit\<close> with
  \<open>NCCL_DEBUG=INFO\<close> opens \<open>log.h1.42\<close>.
\<close>

theorem C7_template_expansion_grammar:
  "(NUL \<notin> set tmpl \<and> NUL \<notin> set hn \<and> percent_paired tmpl \<and> length tmpl \<le> PATH_MAX \<and>
    length (spec_expand tmpl hn p) < PATH_MAX \<longrightarrow>
      expand_debug_file tmpl hn p = Inr (spec_expand tmpl hn p)) \<and>
   expand_debug_file ''log.%h.%p'' ''h1'' 42 = Inr ''log.h1.42'' \<and>
   expand_debug_file ''100%%done'' hn p = Inr ''100%done'' \<and>
   expand_debug_file ''%q'' hn p = Inr ''%q'' \<and>
   (\<exists>s'. ncclDebugInit (example_sys\<lparr>env_NCCL_DEBUG_FILE := Some ''log.%h.%p''\<rparr>) initial_state = Inr s' \<and>
         fopens s' = [''log.h1.42''] \<and> ncclDebugFile s' = DebugFile ''log.h1.42'')"
proof -
  have e1: "expand_debug_file ''log.%h.%p'' ''h1'' 42 = Inr ''log.h1.42''"
    by (simp add: expand_eval)
  have e2: "expand_debug_file ''100%%done'' hn p = Inr ''100%done''"
    by (simp add: expand_eval)
  have e3: "expand_debug_file ''%q'' hn p = Inr ''%q''"
    by (simp add: expand_eval)
  have lv: "parse_level (Some ''INFO'') = 3"
    by (simp add: parse_level_def str_eval)
  have i: "\<exists>s'. ncclDebugInit (example_sys\<lparr>env_NCCL_DEBUG_FILE := Some ''log.%h.%p''\<rparr>) initial_state = Inr s' \<and>
         fopens s' = [''log.h1.42''] \<and> ncclDebugFile s' = DebugFile ''log.h1.42''"
    by (simp add: ncclDebugInit_def example_sys_def initial_state_def lv e1 open_debug_file_def Let_def)
  show ?thesis
    using e1 e2 e3 i by (simp add: expand_debug_file_grammar)
qed

text \<open>A template with all four kinds of specifier.\<close>

theorem C7_witness:
  "NUL \<notin> set ''a.%h%%.%p%q'' \<and> NUL \<notin> set ''h1'' \<and> percent_paired ''a.%h%%.%p%q'' \<and>
   length ''a.%h%%.%p%q'' \<le> PATH_MAX \<and>
   length (spec_expand ''a.%h%%.%p%q'' ''h1'' 42) < PATH_MAX \<and>
   spec_expand ''a.%h%%.%p%q'' ''h1'' 42 = ''a.h1%.42%q'' \<and>
   expand_debug_file ''a.%h%%.%p%q'' ''h1'' 42 = Inr ''a.h1%.42%q''"
proof -
  have s: "spec_expand ''a.%h%%.%p%q'' ''h1'' 42 = ''a.h1%.42%q''"
    by (simp add: dec_eval)
  have h: "NUL \<notin> set ''a.%h%%.%p%q''" "NUL \<notin> set ''h1''" "percent_paired ''a.%h%%.%p%q''"
    "length ''a.%h%%.%p%q'' \<le> PATH_MAX"
    by (simp_all add: NUL_def PATH_MAX_def)
  have l: "length (spec_expand ''a.%h%%.%p%q'' ''h1'' 42) < PATH_MAX"
    unfolding s by (simp add: PATH_MAX_def)
  show ?thesis
    using C7_template_expansion_grammar [where tmpl = "''a.%h%%.%p%q''" and hn = "''h1''" and p = 42,
        THEN conjunct1] h l s
    by simp
qed

subsection \<open>C8: the bounds of the template loop\<close>

text \<open>
  C8. The loop of lines 145 to 165 bounds the read index \<open>c\<close> by \<open>PATH_MAX\<close>, not
  the write pointer, and a \<open>%\<close> consumes the next byte without looking at it. For the
  template \<open>%\<close> the \<open>switch\<close> consumes the terminator and the next loop test reads
  \<open>ncclDebugFileEnv[2]\<close>, past the end of the two-byte string; \<open>ncclDebugInit\<close> with
  \<open>NCCL_DEBUG=INFO\<close> ends in that read. For a template of 4095 plain characters
  followed by \<open>%q\<close> the loop fills \<open>debugFn[0..4096]\<close> and line 166 stores the
  terminator at \<open>debugFn[4097]\<close>, past the end of the \<open>PATH_MAX + 1\<close> bytes.
\<close>

theorem C8_template_expansion_leaves_its_arrays:
  "expand_debug_file ''%'' hn p = Inl (ReadOutOfBounds 2) \<and>
   ncclDebugInit (example_sys\<lparr>env_NCCL_DEBUG_FILE := Some ''%''\<rparr>) initial_state
     = Inl (ReadOutOfBounds 2) \<and>
   expand_debug_file (replicate 4095 CHR ''a'' @ ''%q'') hn p = Inl (WriteOutOfBounds 4097)"
proof -
  have e: "expand_debug_file ''%'' hn' p' = Inl (ReadOutOfBounds 2)" for hn' p'
    by (simp add: expand_eval)
  have lv: "parse_level (Some ''INFO'') = 3"
    by (simp add: parse_level_def str_eval)
  have i: "ncclDebugInit (example_sys\<lparr>env_NCCL_DEBUG_FILE := Some ''%''\<rparr>) initial_state
     = Inl (ReadOutOfBounds 2)"
    by (simp add: ncclDebugInit_def example_sys_def initial_state_def lv e Let_def)
  show ?thesis
    using e i expand_debug_file_overflow by simp
qed

subsection \<open>C9: digit count and zero padding\<close>

text \<open>
  C9. \<open>numDigits\<close> is 0 for every \<open>n \<le> 0\<close>, 1 for 5 and 3 for 128, and
  \<open>ncclDebugSetDistributorParams(8, 128)\<close> stores the rank text \<open>008\<close> and the
  peer-count text \<open>128\<close>, both as wide as the digit count of the peer count.
\<close>

theorem C9_numDigits_and_zero_padding:
  "(\<forall>n. n \<le> 0 \<longrightarrow> numDigits n = 0) \<and> numDigits 5 = 1 \<and> numDigits 128 = 3 \<and>
   rank (ncclDebugSetDistributorParams 8 128 s) = ''008'' \<and>
   nranks (ncclDebugSetDistributorParams 8 128 s) = ''128'' \<and>
   length (rank (ncclDebugSetDistributorParams 8 128 s)) = nat (numDigits 128) \<and>
   length (nranks (ncclDebugSetDistributorParams 8 128 s)) = nat (numDigits 128)"
proof -
  have nd: "numDigits 128 = 3" "numDigits 5 = 1"
    by (simp_all add: numDigits_def numDigits_loop.simps)
  have d8: "dec_int 8 = ''8''" and d128: "dec_int 128 = ''128''"
    by (simp_all add: dec_eval)
  have r: "rank (ncclDebugSetDistributorParams 8 128 s) = ''008''"
    by (simp add: ncclDebugSetDistributorParams_def nd d8 setw_fill0_def eval_nat_numeral)
  have n: "nranks (ncclDebugSetDistributorParams 8 128 s) = ''128''"
    by (simp add: ncclDebugSetDistributorParams_def nd d128 setw_fill0_def)
  show ?thesis
    by (simp add: r n nd numDigits_nonpos)
qed

theorem C9_witness:
  "(-3::int) \<le> 0 \<and> numDigits (-3) = 0 \<and>
   rank (ncclDebugSetDistributorParams 8 128 initial_state) = ''008''"
  using C9_numDigits_and_zero_padding [of initial_state] by simp

subsection \<open>C10: levels without a prefix branch write nothing\<close>

text \<open>
  C10. A call whose level is NONE, VERSION or ABORT (any level other than WARN, INFO
  and TRACE) is not touched by the per-thread override, matches no prefix branch,
  and writes nothing: whatever the configured level and mask, either the lazy
  initialisation of the call faulted and the call ends there, or the call returns
  with the list of \<open>fwrite\<close> blocks unchanged.
\<close>

theorem C10_other_levels_write_nothing:
  assumes "level \<noteq> NCCL_LOG_WARN" and "level \<noteq> NCCL_LOG_INFO" and "level \<noteq> NCCL_LOG_TRACE"
  shows "apply_no_warn t level flags = (level, flags) \<and>
         select_prefix sys s0 level flags ff ln = None \<and>
         (case ncclDebugLog sys level flags ff ln msg (s, t) of
            Inl e \<Rightarrow> lazy_init sys s = Inl e
          | Inr (s', t') \<Rightarrow> fwrites s' = fwrites s)"
proof -
  have ov: "apply_no_warn t level flags = (level, flags)"
    using assms by (simp add: apply_no_warn_def)
  have "case ncclDebugLog sys level flags ff ln msg (s, t) of
            Inl e \<Rightarrow> lazy_init sys s = Inl e
          | Inr (s', t') \<Rightarrow> fwrites s' = fwrites s"
  proof (cases "lazy_init sys s")
    case (Inl e)
    then show ?thesis by (simp add: ncclDebugLog_def)
  next
    case (Inr s1)
    have se: "save_last_error level msg s1 = s1"
      using assms by (simp add: save_last_error_def)
    obtain t' where "filter_and_emit sys level flags ff ln msg (s1, t) = Inr (s1, t')"
      using filter_and_emit_no_prefix [OF assms] by blast
    then show ?thesis
      using Inr by (simp add: ncclDebugLog_def ov se lazy_init_fwrites)
  qed
  then show ?thesis
    using ov assms by (simp add: select_prefix_none)
qed

text \<open>
  An ABORT record that passes the filter (configured level TRACE, flag INIT in the
  default mask) still writes nothing.
\<close>

theorem C10_witness:
  "NCCL_LOG_ABORT \<noteq> NCCL_LOG_WARN \<and> NCCL_LOG_ABORT \<noteq> NCCL_LOG_INFO \<and>
   NCCL_LOG_ABORT \<noteq> NCCL_LOG_TRACE \<and>
   \<not> (ncclDebugLevel (example_state\<lparr>ncclDebugLevel := 5\<rparr>) < level_val NCCL_LOG_ABORT) \<and>
   NCCL_INIT AND ncclDebugMask (example_state\<lparr>ncclDebugLevel := 5\<rparr>) \<noteq> 0 \<and>
   (case ncclDebugLog example_sys NCCL_LOG_ABORT NCCL_INIT ''init.cc'' 7 ''msg''
           (example_state\<lparr>ncclDebugLevel := 5\<rparr>, initial_thread) of
      Inl e \<Rightarrow> lazy_init example_sys (example_state\<lparr>ncclDebugLevel := 5\<rparr>) = Inl e
    | Inr (s', t') \<Rightarrow> fwrites s' = fwrites (example_state\<lparr>ncclDebugLevel := 5\<rparr>))"
  using C10_other_levels_write_nothing
    [where level = NCCL_LOG_ABORT and t = initial_thread and flags = NCCL_INIT
       and sys = example_sys and ?s0.0 = example_state and ff = "''init.cc''" and ln = 7
       and msg = "''msg''" and s = "example_state\<lparr>ncclDebugLevel := 5\<rparr>"]
  by (simp add: example_state_def initial_state_def NCCL_INIT_def NCCL_ENV_def)

end
